theory Spec2Isabelle
  imports Main "HOL-Library.Word"
begin

section \<open>The schema of \<open>20260101120000_initial_schema.sql\<close>\<close>

text \<open>
  The migration declares two tables, their keys, a foreign key with a cascade, seven
  row-level security policies and three trigger functions. The embedding keeps every
  declaration as a definition of its own and gives the statements that run against the
  tables (SELECT, INSERT, UPDATE, DELETE) the meaning PostgreSQL gives them.

  Column types: \<open>uuid\<close> is a 128-bit value, \<open>timestamptz\<close> a number of microseconds,
  \<open>text\<close> a string. Every column is nullable in a tuple (\<open>None\<close> is SQL's NULL); NOT NULL
  is a constraint checked when a tuple is stored.
\<close>

type_synonym uuid = "128 word"
type_synonym timestamptz = int

text \<open>Both tables have the columns \<open>created_at\<close> and \<open>updated_at\<close>; the trigger function
  \<open>handle_updated_at\<close> works on either, so the two columns are a record of their own
  that each table extends. The column \<open>id\<close> of each table carries the table's name.\<close>

record timestamps =
  created_at :: "timestamptz option"
  updated_at :: "timestamptz option"

record users_row = timestamps +
  users_id :: "uuid option"
  email :: "string option"
  display_name :: "string option"
  photo_url :: "string option"

record devices_row = timestamps +
  devices_id :: "uuid option"
  user_id :: "uuid option"
  fcm_token :: "string option"

record db =
  users :: "users_row list"
  devices :: "devices_row list"

text \<open>SQLSTATE classes a statement can fail with here.\<close>

datatype error =
    RlsViolation
  | NotNullViolation string
  | UniqueViolation string
  | ForeignKeyViolation string

text \<open>A comparison \<open>a = b\<close> in SQL is NULL when either side is NULL; a policy, a WHERE
  clause and an index all treat NULL as not true.\<close>

definition sql_eq :: "'a option \<Rightarrow> 'a option \<Rightarrow> bool" where
  "sql_eq a b = (case a of None \<Rightarrow> False | Some x \<Rightarrow> (case b of None \<Rightarrow> False | Some y \<Rightarrow> x = y))"

subsection \<open>INSERT column lists and defaults\<close>

text \<open>A column left out of an INSERT takes its DEFAULT; a column that is written takes
  the value written, NULL included.\<close>

datatype 'a supplied = Omitted | Supplied "'a option"

fun or_default :: "'a supplied \<Rightarrow> 'a option \<Rightarrow> 'a option" where
  "or_default Omitted d = d"
| "or_default (Supplied v) d = v"

record ins_timestamps =
  ins_created_at :: "timestamptz supplied"
  ins_updated_at :: "timestamptz supplied"

record users_insert = ins_timestamps +
  ins_users_id :: "uuid supplied"
  ins_email :: "string supplied"
  ins_display_name :: "string supplied"
  ins_photo_url :: "string supplied"

record devices_insert = ins_timestamps +
  ins_devices_id :: "uuid supplied"
  ins_user_id :: "uuid supplied"
  ins_fcm_token :: "string supplied"

text \<open>\<open>CREATE TABLE public.users\<close>: \<open>created_at\<close> and \<open>updated_at\<close> default to
  CURRENT_TIMESTAMP (\<open>now\<close>), the other columns to NULL.\<close>

definition users_defaults :: "timestamptz \<Rightarrow> users_insert \<Rightarrow> users_row" where
  "users_defaults now v =
     \<lparr> created_at = or_default (ins_created_at v) (Some now),
       updated_at = or_default (ins_updated_at v) (Some now),
       users_id = or_default (ins_users_id v) None,
       email = or_default (ins_email v) None,
       display_name = or_default (ins_display_name v) None,
       photo_url = or_default (ins_photo_url v) None \<rparr>"

text \<open>\<open>CREATE TABLE public.devices\<close>: \<open>id\<close> defaults to \<open>gen_random_uuid()\<close>, whose
  result is the parameter \<open>gen\<close>.\<close>

definition devices_defaults :: "timestamptz \<Rightarrow> uuid \<Rightarrow> devices_insert \<Rightarrow> devices_row" where
  "devices_defaults now gen v =
     \<lparr> created_at = or_default (ins_created_at v) (Some now),
       updated_at = or_default (ins_updated_at v) (Some now),
       devices_id = or_default (ins_devices_id v) (Some gen),
       user_id = or_default (ins_user_id v) None,
       fcm_token = or_default (ins_fcm_token v) None \<rparr>"

subsection \<open>Constraints\<close>

text \<open>NOT NULL columns, in column order; the first one that is NULL is reported.\<close>

definition users_not_null :: "users_row \<Rightarrow> string option" where
  "users_not_null r = (if users_id r = None then Some ''id'' else None)"

definition devices_not_null :: "devices_row \<Rightarrow> string option" where
  "devices_not_null r =
     (if devices_id r = None then Some ''id''
      else if user_id r = None then Some ''user_id''
      else if fcm_token r = None then Some ''fcm_token''
      else None)"

text \<open>Unique indexes: a new tuple conflicts with a stored one that is equal on every
  indexed column.\<close>

definition users_pkey :: "users_row list \<Rightarrow> users_row \<Rightarrow> bool" where
  "users_pkey rows new = (\<exists>r \<in> set rows. sql_eq (users_id r) (users_id new))"

definition devices_pkey :: "devices_row list \<Rightarrow> devices_row \<Rightarrow> bool" where
  "devices_pkey rows new = (\<exists>r \<in> set rows. sql_eq (devices_id r) (devices_id new))"

definition devices_user_id_fcm_token_key :: "devices_row list \<Rightarrow> devices_row \<Rightarrow> bool" where
  "devices_user_id_fcm_token_key rows new =
     (\<exists>r \<in> set rows. sql_eq (user_id r) (user_id new) \<and> sql_eq (fcm_token r) (fcm_token new))"

text \<open>\<open>devices_user_id_fkey\<close>: \<open>devices.user_id\<close> references \<open>users.id\<close>. A device tuple
  is accepted when some users tuple has that id; the state satisfies the constraint when
  every stored device does.\<close>

definition devices_user_id_fkey :: "users_row list \<Rightarrow> devices_row \<Rightarrow> bool" where
  "devices_user_id_fkey us d = (\<exists>u \<in> set us. sql_eq (users_id u) (user_id d))"

definition fkey_holds :: "db \<Rightarrow> bool" where
  "fkey_holds s = (\<forall>d \<in> set (devices s). devices_user_id_fkey (users s) d)"

text \<open>ON DELETE CASCADE: the devices that reference one of the deleted users tuples go
  with it.\<close>

definition on_delete_cascade :: "users_row list \<Rightarrow> devices_row list \<Rightarrow> devices_row list" where
  "on_delete_cascade deleted ds = filter (\<lambda>d. \<not> devices_user_id_fkey deleted d) ds"

section \<open>Row level security\<close>

text \<open>A request reaches the tables under one of the two API roles; \<open>auth.uid()\<close> is the
  identity in its token, NULL when there is none.\<close>

datatype role = anon | authenticated

record caller =
  caller_role :: role
  auth_uid :: "uuid option"

datatype command = SELECT | INSERT | UPDATE | DELETE

record 'row policy =
  policy_name :: string
  policy_for :: command
  policy_to :: role
  policy_using :: "(caller \<Rightarrow> 'row \<Rightarrow> bool) option"
  policy_with_check :: "(caller \<Rightarrow> 'row \<Rightarrow> bool) option"

definition users_policies :: "users_row policy list" where
  "users_policies =
    [ \<lparr> policy_name = ''Users can view their own data'', policy_for = SELECT,
        policy_to = authenticated,
        policy_using = Some (\<lambda>c r. sql_eq (auth_uid c) (users_id r)),
        policy_with_check = None \<rparr>,
      \<lparr> policy_name = ''Users can update their data'', policy_for = UPDATE,
        policy_to = authenticated,
        policy_using = Some (\<lambda>c r. sql_eq (auth_uid c) (users_id r)),
        policy_with_check = Some (\<lambda>c r. sql_eq (auth_uid c) (users_id r)) \<rparr>,
      \<lparr> policy_name = ''Users can delete their own data'', policy_for = DELETE,
        policy_to = authenticated,
        policy_using = Some (\<lambda>c r. sql_eq (auth_uid c) (users_id r)),
        policy_with_check = None \<rparr> ]"

definition devices_policies :: "devices_row policy list" where
  "devices_policies =
    [ \<lparr> policy_name = ''Users can view their own devices'', policy_for = SELECT,
        policy_to = authenticated,
        policy_using = Some (\<lambda>c r. sql_eq (auth_uid c) (user_id r)),
        policy_with_check = None \<rparr>,
      \<lparr> policy_name = ''Users can create their own devices'', policy_for = INSERT,
        policy_to = authenticated,
        policy_using = None,
        policy_with_check = Some (\<lambda>c r. sql_eq (auth_uid c) (user_id r)) \<rparr>,
      \<lparr> policy_name = ''Users can update their own devices'', policy_for = UPDATE,
        policy_to = authenticated,
        policy_using = Some (\<lambda>c r. sql_eq (auth_uid c) (user_id r)),
        policy_with_check = Some (\<lambda>c r. sql_eq (auth_uid c) (user_id r)) \<rparr>,
      \<lparr> policy_name = ''Users can delete their own devices'', policy_for = DELETE,
        policy_to = authenticated,
        policy_using = Some (\<lambda>c r. sql_eq (auth_uid c) (user_id r)),
        policy_with_check = None \<rparr> ]"

text \<open>ENABLE ROW LEVEL SECURITY: the policies that apply to a statement are those
  declared for its command and for the caller's role. They are PERMISSIVE, so one that
  holds is enough, and with none that applies nothing is allowed. USING is asked of a
  stored tuple, WITH CHECK of a tuple about to be stored; a policy without WITH CHECK
  checks with its USING expression.\<close>

definition applicable :: "'row policy list \<Rightarrow> caller \<Rightarrow> command \<Rightarrow> 'row policy list" where
  "applicable ps c cmd = filter (\<lambda>p. policy_for p = cmd \<and> policy_to p = caller_role c) ps"

definition rls_using :: "'row policy list \<Rightarrow> caller \<Rightarrow> command \<Rightarrow> 'row \<Rightarrow> bool" where
  "rls_using ps c cmd r =
     (\<exists>p \<in> set (applicable ps c cmd).
        (case policy_using p of None \<Rightarrow> True | Some u \<Rightarrow> u c r))"

definition rls_with_check :: "'row policy list \<Rightarrow> caller \<Rightarrow> command \<Rightarrow> 'row \<Rightarrow> bool" where
  "rls_with_check ps c cmd r =
     (\<exists>p \<in> set (applicable ps c cmd).
        (case policy_with_check p of
           Some w \<Rightarrow> w c r
         | None \<Rightarrow> (case policy_using p of None \<Rightarrow> True | Some u \<Rightarrow> u c r)))"

text \<open>The trigger functions \<open>handle_new_user\<close> and \<open>handle_deleted_user\<close> are
  SECURITY DEFINER: they run as their owner, the role that ran the migration and owns
  the tables, and row security is not applied to a table's owner (it is enabled, not
  forced). Every other statement comes from the API under a caller.\<close>

datatype executor = table_owner | api caller

fun allows_using :: "'row policy list \<Rightarrow> executor \<Rightarrow> command \<Rightarrow> 'row \<Rightarrow> bool" where
  "allows_using ps table_owner cmd r = True"
| "allows_using ps (api c) cmd r = rls_using ps c cmd r"

fun allows_with_check :: "'row policy list \<Rightarrow> executor \<Rightarrow> command \<Rightarrow> 'row \<Rightarrow> bool" where
  "allows_with_check ps table_owner cmd r = True"
| "allows_with_check ps (api c) cmd r = rls_with_check ps c cmd r"

text \<open>An UPDATE or DELETE with a WHERE clause reads the table, so the tuples it can
  touch are those the SELECT policies show and its own USING policies allow.\<close>

definition reaches :: "'row policy list \<Rightarrow> executor \<Rightarrow> command \<Rightarrow> 'row \<Rightarrow> bool" where
  "reaches ps x cmd r = (allows_using ps x SELECT r \<and> allows_using ps x cmd r)"

section \<open>Trigger functions on the tables\<close>

text \<open>\<open>handle_updated_at\<close>: \<open>NEW.updated_at = NOW(); RETURN NEW\<close>. \<open>NOW()\<close> is the time
  the transaction started, the parameter \<open>now\<close> of every statement below.\<close>

definition handle_updated_at :: "timestamptz \<Rightarrow> 'a timestamps_scheme \<Rightarrow> 'a timestamps_scheme" where
  "handle_updated_at now new = new\<lparr> updated_at := Some now \<rparr>"

section \<open>Statements\<close>

text \<open>A statement that fails is \<open>Inl\<close> of its error and stores nothing: the state stays
  the one it was given. One that succeeds returns the new state, and an UPDATE or DELETE
  also the tuples it wrote or removed (its row count is their number).\<close>

text \<open>What the caller gets back from an UPDATE or DELETE: the error, or the tuples.\<close>

definition outcome :: "error + ('row list \<times> db) \<Rightarrow> error + 'row list" where
  "outcome res = (case res of Inl e \<Rightarrow> Inl e | Inr (rows, s') \<Rightarrow> Inr rows)"

text \<open>The state after a statement: the one before when it failed.\<close>

definition stored :: "db \<Rightarrow> error + db \<Rightarrow> db" where
  "stored s res = (case res of Inl e \<Rightarrow> s | Inr s' \<Rightarrow> s')"

text \<open>A statement without a WHERE clause, the clauses \<open>WHERE id = k\<close> on either table,
  and three SET clauses.\<close>

definition set_updated_at :: "timestamptz option \<Rightarrow> 'a timestamps_scheme \<Rightarrow> 'a timestamps_scheme" where
  "set_updated_at v r = r\<lparr> updated_at := v \<rparr>"

definition where_any :: "'row \<Rightarrow> bool" where
  "where_any r = True"

definition where_users_id :: "uuid \<Rightarrow> users_row \<Rightarrow> bool" where
  "where_users_id k r = sql_eq (users_id r) (Some k)"

definition where_devices_id :: "uuid \<Rightarrow> devices_row \<Rightarrow> bool" where
  "where_devices_id k r = sql_eq (devices_id r) (Some k)"

definition set_display_name :: "string \<Rightarrow> users_row \<Rightarrow> users_row" where
  "set_display_name n r = r\<lparr> display_name := Some n \<rparr>"

definition set_fcm_token :: "string \<Rightarrow> devices_row \<Rightarrow> devices_row" where
  "set_fcm_token t r = r\<lparr> fcm_token := Some t \<rparr>"

subsection \<open>public.users\<close>

definition select_users :: "executor \<Rightarrow> (users_row \<Rightarrow> bool) \<Rightarrow> db \<Rightarrow> users_row list" where
  "select_users x wh s = filter (\<lambda>r. allows_using users_policies x SELECT r \<and> wh r) (users s)"

text \<open>INSERT: defaults, then the WITH CHECK policies, then NOT NULL, then the unique
  index. No trigger is declared for INSERT on either table.\<close>

definition insert_users :: "executor \<Rightarrow> users_insert \<Rightarrow> timestamptz \<Rightarrow> db \<Rightarrow> error + db" where
  "insert_users x v now s =
     (let new = users_defaults now v in
      if \<not> allows_with_check users_policies x INSERT new then Inl RlsViolation
      else (case users_not_null new of
              Some col \<Rightarrow> Inl (NotNullViolation col)
            | None \<Rightarrow>
                if users_pkey (users s) new then Inl (UniqueViolation ''users_pkey'')
                else Inr (s\<lparr> users := users s @ [new] \<rparr>)))"

text \<open>UPDATE visits the tuples in turn. For one it can reach and the WHERE clause
  selects: the SET clause gives NEW, the BEFORE UPDATE trigger \<open>on_users_updated\<close>
  runs \<open>handle_updated_at\<close> on it, then come the WITH CHECK policies, NOT NULL and the
  unique index (against every other tuple, those already rewritten included). \<open>seen\<close>
  holds the tuples already visited.\<close>

fun update_users_loop ::
  "executor \<Rightarrow> (users_row \<Rightarrow> bool) \<Rightarrow> (users_row \<Rightarrow> users_row) \<Rightarrow> timestamptz \<Rightarrow>
   users_row list \<Rightarrow> users_row list \<Rightarrow> error + (users_row list \<times> users_row list)" where
  "update_users_loop x wh assign now seen [] = Inr ([], seen)"
| "update_users_loop x wh assign now seen (old # rest) =
     (if reaches users_policies x UPDATE old \<and> wh old then
        (let new = handle_updated_at now (assign old) in
         if \<not> allows_with_check users_policies x UPDATE new then Inl RlsViolation
         else (case users_not_null new of
                 Some col \<Rightarrow> Inl (NotNullViolation col)
               | None \<Rightarrow>
                   if users_pkey (seen @ rest) new then Inl (UniqueViolation ''users_pkey'')
                   else (case update_users_loop x wh assign now (seen @ [new]) rest of
                           Inl e \<Rightarrow> Inl e
                         | Inr (written, tbl) \<Rightarrow> Inr (new # written, tbl))))
      else update_users_loop x wh assign now (seen @ [old]) rest)"

text \<open>\<open>devices_user_id_fkey\<close> declares no ON UPDATE action, which is NO ACTION: the
  key is looked at when the statement has visited every tuple. It is violated when a
  tuple whose \<open>id\<close> the statement changed was referenced by a device, and no tuple of
  the table as rewritten has the id that device refers to.\<close>

definition on_update_no_action ::
  "users_row list \<Rightarrow> users_row list \<Rightarrow> devices_row list \<Rightarrow> bool" where
  "on_update_no_action renumbered tbl ds =
     (\<exists>old \<in> set renumbered. \<exists>d \<in> set ds.
        devices_user_id_fkey [old] d \<and> \<not> devices_user_id_fkey tbl d)"

definition update_users ::
  "executor \<Rightarrow> (users_row \<Rightarrow> bool) \<Rightarrow> (users_row \<Rightarrow> users_row) \<Rightarrow> timestamptz \<Rightarrow> db \<Rightarrow>
   error + (users_row list \<times> db)" where
  "update_users x wh assign now s =
     (case update_users_loop x wh assign now [] (users s) of
        Inl e \<Rightarrow> Inl e
      | Inr (written, tbl) \<Rightarrow>
          (let renumbered =
                 filter (\<lambda>old. reaches users_policies x UPDATE old \<and> wh old
                          \<and> users_id (handle_updated_at now (assign old)) \<noteq> users_id old)
                   (users s)
           in if on_update_no_action renumbered tbl (devices s)
              then Inl (ForeignKeyViolation ''devices_user_id_fkey'')
              else Inr (written, s\<lparr> users := tbl \<rparr>)))"

text \<open>DELETE removes the tuples it can reach and the WHERE clause selects; the foreign
  key's cascade then removes their devices. The cascade is the constraint's own action
  and is not subject to the caller's policies on \<open>devices\<close>.\<close>

definition delete_users ::
  "executor \<Rightarrow> (users_row \<Rightarrow> bool) \<Rightarrow> db \<Rightarrow> error + (users_row list \<times> db)" where
  "delete_users x wh s =
     (let hit = (\<lambda>r. reaches users_policies x DELETE r \<and> wh r);
          removed = filter hit (users s)
      in Inr (removed,
              \<lparr> users = filter (\<lambda>r. \<not> hit r) (users s),
                devices = on_delete_cascade removed (devices s) \<rparr>))"

subsection \<open>public.devices\<close>

definition select_devices :: "executor \<Rightarrow> (devices_row \<Rightarrow> bool) \<Rightarrow> db \<Rightarrow> devices_row list" where
  "select_devices x wh s =
     filter (\<lambda>r. allows_using devices_policies x SELECT r \<and> wh r) (devices s)"

text \<open>The unique indexes are checked in the order they were created, the foreign key
  after the tuple is in place.\<close>

definition insert_devices ::
  "executor \<Rightarrow> devices_insert \<Rightarrow> timestamptz \<Rightarrow> uuid \<Rightarrow> db \<Rightarrow> error + db" where
  "insert_devices x v now gen s =
     (let new = devices_defaults now gen v in
      if \<not> allows_with_check devices_policies x INSERT new then Inl RlsViolation
      else (case devices_not_null new of
              Some col \<Rightarrow> Inl (NotNullViolation col)
            | None \<Rightarrow>
                if devices_pkey (devices s) new then Inl (UniqueViolation ''devices_pkey'')
                else if devices_user_id_fcm_token_key (devices s) new
                then Inl (UniqueViolation ''devices_user_id_fcm_token_key'')
                else if \<not> devices_user_id_fkey (users s) new
                then Inl (ForeignKeyViolation ''devices_user_id_fkey'')
                else Inr (s\<lparr> devices := devices s @ [new] \<rparr>)))"

text \<open>UPDATE on \<open>devices\<close>, with the trigger \<open>on_devices_updated\<close>. The foreign
  key is looked up again, when the statement has visited every tuple, for each tuple
  whose \<open>user_id\<close> it changed.\<close>

fun update_devices_loop ::
  "executor \<Rightarrow> (devices_row \<Rightarrow> bool) \<Rightarrow> (devices_row \<Rightarrow> devices_row) \<Rightarrow> timestamptz \<Rightarrow>
   devices_row list \<Rightarrow> devices_row list \<Rightarrow>
   error + (devices_row list \<times> devices_row list)" where
  "update_devices_loop x wh assign now seen [] = Inr ([], seen)"
| "update_devices_loop x wh assign now seen (old # rest) =
     (if reaches devices_policies x UPDATE old \<and> wh old then
        (let new = handle_updated_at now (assign old) in
         if \<not> allows_with_check devices_policies x UPDATE new then Inl RlsViolation
         else (case devices_not_null new of
                 Some col \<Rightarrow> Inl (NotNullViolation col)
               | None \<Rightarrow>
                   if devices_pkey (seen @ rest) new then Inl (UniqueViolation ''devices_pkey'')
                   else if devices_user_id_fcm_token_key (seen @ rest) new
                   then Inl (UniqueViolation ''devices_user_id_fcm_token_key'')
                   else (case update_devices_loop x wh assign now (seen @ [new]) rest of
                           Inl e \<Rightarrow> Inl e
                         | Inr (written, tbl) \<Rightarrow> Inr (new # written, tbl))))
      else update_devices_loop x wh assign now (seen @ [old]) rest)"

definition update_devices ::
  "executor \<Rightarrow> (devices_row \<Rightarrow> bool) \<Rightarrow> (devices_row \<Rightarrow> devices_row) \<Rightarrow> timestamptz \<Rightarrow> db \<Rightarrow>
   error + (devices_row list \<times> db)" where
  "update_devices x wh assign now s =
     (case update_devices_loop x wh assign now [] (devices s) of
        Inl e \<Rightarrow> Inl e
      | Inr (written, tbl) \<Rightarrow>
          (let moved =
                 filter (\<lambda>old. reaches devices_policies x UPDATE old \<and> wh old
                          \<and> user_id (handle_updated_at now (assign old)) \<noteq> user_id old)
                   (devices s)
           in if \<exists>old \<in> set moved.
                   \<not> devices_user_id_fkey (users s) (handle_updated_at now (assign old))
              then Inl (ForeignKeyViolation ''devices_user_id_fkey'')
              else Inr (written, s\<lparr> devices := tbl \<rparr>)))"

definition delete_devices ::
  "executor \<Rightarrow> (devices_row \<Rightarrow> bool) \<Rightarrow> db \<Rightarrow> error + (devices_row list \<times> db)" where
  "delete_devices x wh s =
     (let hit = (\<lambda>r. reaches devices_policies x DELETE r \<and> wh r)
      in Inr (filter hit (devices s), s\<lparr> devices := filter (\<lambda>r. \<not> hit r) (devices s) \<rparr>))"

section \<open>Mirroring the identity provider\<close>

text \<open>\<open>auth.users\<close> is the identity provider's table; the migration only attaches
  triggers to it. A tuple of it carries the account's \<open>id\<close> (its primary key), the
  \<open>email\<close> and the provider's metadata, a \<open>jsonb\<close> value or NULL.

  A \<open>jsonb\<close> is an object of members or some other value; a member is JSON's null or a
  value with the text that \<open>->>\<close> renders it as.\<close>

datatype json_member = JsonNull | JsonValue string

datatype jsonb = JsonObject "(string \<times> json_member) list" | JsonNotObject

record auth_users_row =
  auth_id :: uuid
  auth_email :: "string option"
  raw_user_meta_data :: "jsonb option"

text \<open>The operator \<open>->>\<close> with a key: NULL on NULL, on a value that is no object, on a
  missing key and on a null member.\<close>

fun json_get_text :: "jsonb option \<Rightarrow> string \<Rightarrow> string option" where
  "json_get_text None k = None"
| "json_get_text (Some JsonNotObject) k = None"
| "json_get_text (Some (JsonObject kvs)) k =
     (case map_of kvs k of
        None \<Rightarrow> None
      | Some JsonNull \<Rightarrow> None
      | Some (JsonValue t) \<Rightarrow> Some t)"

text \<open>\<open>handle_new_user\<close>: \<open>INSERT INTO public.users (id, display_name, email, photo_url)
  VALUES (NEW.id, NEW.raw_user_meta_data->>'full_name', NEW.email,
  NEW.raw_user_meta_data->>'avatar_url')\<close>.\<close>

definition handle_new_user :: "auth_users_row \<Rightarrow> timestamptz \<Rightarrow> db \<Rightarrow> error + db" where
  "handle_new_user new now s =
     insert_users table_owner
       \<lparr> ins_created_at = Omitted,
         ins_updated_at = Omitted,
         ins_users_id = Supplied (Some (auth_id new)),
         ins_email = Supplied (auth_email new),
         ins_display_name = Supplied (json_get_text (raw_user_meta_data new) ''full_name''),
         ins_photo_url = Supplied (json_get_text (raw_user_meta_data new) ''avatar_url'') \<rparr>
       now s"

text \<open>\<open>handle_deleted_user\<close>: \<open>DELETE FROM public.users WHERE id = OLD.id\<close>.\<close>

definition handle_deleted_user :: "auth_users_row \<Rightarrow> db \<Rightarrow> error + db" where
  "handle_deleted_user old s =
     (case delete_users table_owner (where_users_id (auth_id old)) s of
        Inl e \<Rightarrow> Inl e
      | Inr (removed, s') \<Rightarrow> Inr s')"

text \<open>The triggers \<open>on_auth_user_created\<close> (AFTER INSERT ON auth.users) and
  \<open>on_auth_user_deleted\<close> (AFTER DELETE ON auth.users) run the two functions for each
  tuple, inside the provider's statement: an error of the function is an error of the
  account's creation or deletion.\<close>

definition on_auth_user_created :: "auth_users_row \<Rightarrow> timestamptz \<Rightarrow> db \<Rightarrow> error + db" where
  "on_auth_user_created new now s = handle_new_user new now s"

definition on_auth_user_deleted :: "auth_users_row \<Rightarrow> db \<Rightarrow> error + db" where
  "on_auth_user_deleted old s = handle_deleted_user old s"

section \<open>Ownership\<close>

text \<open>The tuples of a table that are not the caller's: those whose owner key
  (\<open>users.id\<close>, \<open>devices.user_id\<close>) does not equal \<open>auth.uid()\<close>.\<close>

abbreviation others_users :: "caller \<Rightarrow> users_row list \<Rightarrow> users_row list" where
  "others_users c rows \<equiv> filter (\<lambda>r. \<not> sql_eq (auth_uid c) (users_id r)) rows"

abbreviation others_devices :: "caller \<Rightarrow> devices_row list \<Rightarrow> devices_row list" where
  "others_devices c rows \<equiv> filter (\<lambda>r. \<not> sql_eq (auth_uid c) (user_id r)) rows"

section \<open>A scenario\<close>

text \<open>Two accounts: \<open>u1\<close> with an email and no metadata, \<open>u2\<close> with a name in its
  metadata; their users tuples as created at time 10; a device of \<open>u1\<close> registered at
  time 20.\<close>

definition account_u1 :: auth_users_row where
  "account_u1 = \<lparr> auth_id = 1, auth_email = Some ''a@example.com'', raw_user_meta_data = None \<rparr>"

definition account_u2 :: auth_users_row where
  "account_u2 = \<lparr> auth_id = 2, auth_email = None,
     raw_user_meta_data =
       Some (JsonObject [(''full_name'', JsonValue ''Bo''), (''avatar_url'', JsonNull)]) \<rparr>"

definition as_u1 :: caller where
  "as_u1 = \<lparr> caller_role = authenticated, auth_uid = Some 1 \<rparr>"

definition as_u2 :: caller where
  "as_u2 = \<lparr> caller_role = authenticated, auth_uid = Some 2 \<rparr>"

definition as_nobody :: caller where
  "as_nobody = \<lparr> caller_role = anon, auth_uid = None \<rparr>"

definition row_u1 :: users_row where
  "row_u1 = \<lparr> created_at = Some 10, updated_at = Some 10, users_id = Some 1,
              email = Some ''a@example.com'', display_name = None, photo_url = None \<rparr>"

definition row_u2 :: users_row where
  "row_u2 = \<lparr> created_at = Some 10, updated_at = Some 10, users_id = Some 2,
              email = None, display_name = Some ''Bo'', photo_url = None \<rparr>"

definition device_u1 :: devices_row where
  "device_u1 = \<lparr> created_at = Some 20, updated_at = Some 20, devices_id = Some 11,
                 user_id = Some 1, fcm_token = Some ''tok-1'' \<rparr>"

definition device_u2 :: devices_row where
  "device_u2 = \<lparr> created_at = Some 20, updated_at = Some 20, devices_id = Some 12,
                 user_id = Some 2, fcm_token = Some ''tok-1'' \<rparr>"

text \<open>A device registered at time 20 by a client that wrote its own \<open>updated_at\<close>, 100.\<close>

definition device_ahead :: devices_row where
  "device_ahead = \<lparr> created_at = Some 20, updated_at = Some 100, devices_id = Some 11,
                    user_id = Some 1, fcm_token = Some ''tok-1'' \<rparr>"

definition register :: "uuid \<Rightarrow> string \<Rightarrow> devices_insert" where
  "register u t = \<lparr> ins_created_at = Omitted, ins_updated_at = Omitted,
                    ins_devices_id = Omitted, ins_user_id = Supplied (Some u),
                    ins_fcm_token = Supplied (Some t) \<rparr>"

definition no_rows :: db where
  "no_rows = \<lparr> users = [], devices = [] \<rparr>"

definition only_u1 :: db where
  "only_u1 = \<lparr> users = [row_u1], devices = [] \<rparr>"

definition two_users :: db where
  "two_users = \<lparr> users = [row_u1, row_u2], devices = [] \<rparr>"

definition with_device :: db where
  "with_device = \<lparr> users = [row_u1, row_u2], devices = [device_u1] \<rparr>"

definition both_devices :: db where
  "both_devices = \<lparr> users = [row_u1, row_u2], devices = [device_u1, device_u2] \<rparr>"

definition with_device_ahead :: db where
  "with_device_ahead = \<lparr> users = [row_u1, row_u2], devices = [device_ahead] \<rparr>"

lemmas scenario_defs =
  account_u1_def account_u2_def as_u1_def as_u2_def as_nobody_def row_u1_def row_u2_def
  device_u1_def device_u2_def device_ahead_def register_def no_rows_def only_u1_def
  two_users_def with_device_def both_devices_def with_device_ahead_def

section \<open>Facts about the declarations\<close>

lemma sql_eq_Some [simp]: "sql_eq a (Some k) = (a = Some k)" "sql_eq (Some k) b = (b = Some k)"
  by (auto simp: sql_eq_def split: option.splits)

lemma sql_eq_None [simp]: "sql_eq None b = False" "sql_eq a None = False"
  by (auto simp: sql_eq_def split: option.splits)

lemma sql_eq_imp_eq: "sql_eq a b \<Longrightarrow> a = b"
  by (auto simp: sql_eq_def split: option.splits)

lemma sql_eq_same: "sql_eq a b \<Longrightarrow> sql_eq a b' \<Longrightarrow> b = b'"
  by (auto simp: sql_eq_def split: option.splits)

lemma where_users_id_iff [simp]: "where_users_id k r = (users_id r = Some k)"
  by (simp add: where_users_id_def)

lemma where_devices_id_iff [simp]: "where_devices_id k r = (devices_id r = Some k)"
  by (simp add: where_devices_id_def)

lemma where_users_id_fun: "where_users_id k = (\<lambda>r. users_id r = Some k)"
  by (rule ext) simp

lemma where_devices_id_fun: "where_devices_id k = (\<lambda>r. devices_id r = Some k)"
  by (rule ext) simp

subsection \<open>The policies, command by command\<close>

lemma rls_using_users:
  "rls_using users_policies c cmd r =
     (cmd \<noteq> INSERT \<and> caller_role c = authenticated \<and> sql_eq (auth_uid c) (users_id r))"
  by (cases cmd) (auto simp: rls_using_def applicable_def users_policies_def)

lemma rls_with_check_users_INSERT: "rls_with_check users_policies c INSERT r = False"
  by (auto simp: rls_with_check_def applicable_def users_policies_def)

lemma rls_with_check_users_UPDATE:
  "rls_with_check users_policies c UPDATE r =
     (caller_role c = authenticated \<and> sql_eq (auth_uid c) (users_id r))"
  by (auto simp: rls_with_check_def applicable_def users_policies_def)

lemma rls_using_devices:
  "rls_using devices_policies c cmd r =
     (caller_role c = authenticated \<and> (cmd = INSERT \<or> sql_eq (auth_uid c) (user_id r)))"
  by (cases cmd) (auto simp: rls_using_def applicable_def devices_policies_def)

lemma rls_with_check_devices_INSERT:
  "rls_with_check devices_policies c INSERT r =
     (caller_role c = authenticated \<and> sql_eq (auth_uid c) (user_id r))"
  by (auto simp: rls_with_check_def applicable_def devices_policies_def)

lemma rls_with_check_devices_UPDATE:
  "rls_with_check devices_policies c UPDATE r =
     (caller_role c = authenticated \<and> sql_eq (auth_uid c) (user_id r))"
  by (auto simp: rls_with_check_def applicable_def devices_policies_def)

lemma reaches_table_owner [simp]: "reaches ps table_owner cmd r"
  by (simp add: reaches_def)

lemma reaches_users:
  "cmd \<noteq> INSERT \<Longrightarrow> reaches users_policies (api c) cmd r =
     (caller_role c = authenticated \<and> sql_eq (auth_uid c) (users_id r))"
  by (auto simp: reaches_def rls_using_users)

lemma reaches_devices:
  "cmd \<noteq> INSERT \<Longrightarrow> reaches devices_policies (api c) cmd r =
     (caller_role c = authenticated \<and> sql_eq (auth_uid c) (user_id r))"
  by (auto simp: reaches_def rls_using_devices)

subsection \<open>The two trigger functions on \<open>auth.users\<close>\<close>

lemma delete_users_owner:
  "delete_users table_owner wh s =
     Inr (filter wh (users s),
          \<lparr> users = filter (\<lambda>r. \<not> wh r) (users s),
            devices = on_delete_cascade (filter wh (users s)) (devices s) \<rparr>)"
  by (simp add: delete_users_def Let_def)

lemma cascade_nothing [simp]: "on_delete_cascade [] ds = ds"
  by (simp add: on_delete_cascade_def devices_user_id_fkey_def)

lemma handle_deleted_user_eq:
  "handle_deleted_user old s =
     Inr \<lparr> users = filter (\<lambda>r. users_id r \<noteq> Some (auth_id old)) (users s),
           devices = on_delete_cascade
                       (filter (\<lambda>r. users_id r = Some (auth_id old)) (users s)) (devices s) \<rparr>"
  by (simp add: handle_deleted_user_def delete_users_owner where_users_id_fun)

lemma cascade_under_fkey:
  assumes "fkey_holds s"
  shows "on_delete_cascade (filter (\<lambda>r. users_id r = Some k) (users s)) (devices s)
         = filter (\<lambda>d. user_id d \<noteq> Some k) (devices s)"
  unfolding on_delete_cascade_def
proof (rule filter_cong[OF refl])
  fix d assume d: "d \<in> set (devices s)"
  then obtain u where u: "u \<in> set (users s)" "sql_eq (users_id u) (user_id d)"
    using assms by (auto simp: fkey_holds_def devices_user_id_fkey_def)
  then have same: "users_id u = user_id d" by (simp add: sql_eq_imp_eq)
  show "(\<not> devices_user_id_fkey (filter (\<lambda>r. users_id r = Some k) (users s)) d)
        = (user_id d \<noteq> Some k)"
  proof (cases "user_id d = Some k")
    case True
    with u same show ?thesis by (auto simp: devices_user_id_fkey_def)
  next
    case False
    then show ?thesis by (auto simp: devices_user_id_fkey_def dest: sql_eq_imp_eq)
  qed
qed

lemma insert_users_owner:
  "insert_users table_owner v now s =
     (case users_not_null (users_defaults now v) of
        Some col \<Rightarrow> Inl (NotNullViolation col)
      | None \<Rightarrow> if users_pkey (users s) (users_defaults now v)
                then Inl (UniqueViolation ''users_pkey'')
                else Inr (s\<lparr> users := users s @ [users_defaults now v] \<rparr>))"
  by (simp add: insert_users_def Let_def)

lemma handle_new_user_eq:
  "handle_new_user new now s =
     (if \<exists>r \<in> set (users s). users_id r = Some (auth_id new)
      then Inl (UniqueViolation ''users_pkey'')
      else Inr (s\<lparr> users := users s @
             [\<lparr> created_at = Some now, updated_at = Some now,
                users_id = Some (auth_id new), email = auth_email new,
                display_name = json_get_text (raw_user_meta_data new) ''full_name'',
                photo_url = json_get_text (raw_user_meta_data new) ''avatar_url'' \<rparr>] \<rparr>))"
  by (simp add: handle_new_user_def insert_users_owner users_defaults_def users_not_null_def
      users_pkey_def)

section \<open>Account creation and deletion\<close>

text \<open>
  C2. When an account with key \<open>k\<close> is deleted, in a state that satisfies the foreign
  key, the deletion succeeds; afterwards no users tuple has id \<open>k\<close> and no devices tuple
  has user_id \<open>k\<close>, every other tuple of both tables is kept, and the foreign key still
  holds, so no device is left without its user. Users tuple and devices go in the one
  step of the DELETE and its cascade.
\<close>

theorem account_deletion_removes_user_and_devices:
  assumes "fkey_holds s"
  shows "\<exists>s'. on_auth_user_deleted old s = Inr s'
           \<and> (\<forall>u \<in> set (users s'). users_id u \<noteq> Some (auth_id old))
           \<and> (\<forall>d \<in> set (devices s'). user_id d \<noteq> Some (auth_id old))
           \<and> users s' = filter (\<lambda>u. users_id u \<noteq> Some (auth_id old)) (users s)
           \<and> devices s' = filter (\<lambda>d. user_id d \<noteq> Some (auth_id old)) (devices s)
           \<and> fkey_holds s'"
proof -
  let ?k = "auth_id old"
  let ?s' = "\<lparr> users = filter (\<lambda>u. users_id u \<noteq> Some ?k) (users s),
               devices = filter (\<lambda>d. user_id d \<noteq> Some ?k) (devices s) \<rparr>"
  have run: "on_auth_user_deleted old s = Inr ?s'"
    by (simp add: on_auth_user_deleted_def handle_deleted_user_eq cascade_under_fkey[OF assms])
  have "fkey_holds ?s'"
    unfolding fkey_holds_def
  proof
    fix d assume "d \<in> set (devices ?s')"
    then have d: "d \<in> set (devices s)" "user_id d \<noteq> Some ?k" by auto
    then obtain u where u: "u \<in> set (users s)" "sql_eq (users_id u) (user_id d)"
      using assms by (auto simp: fkey_holds_def devices_user_id_fkey_def)
    then have "users_id u \<noteq> Some ?k" using d(2) by (auto dest: sql_eq_imp_eq)
    with u show "devices_user_id_fkey (users ?s') d"
      by (auto simp: devices_user_id_fkey_def)
  qed
  with run show ?thesis by auto
qed

theorem account_deletion_removes_user_and_devices_witness:
  "fkey_holds with_device
   \<and> on_auth_user_deleted account_u1 with_device = Inr \<lparr> users = [row_u2], devices = [] \<rparr>"
proof -
  have fk: "fkey_holds with_device"
    by (simp add: fkey_holds_def devices_user_id_fkey_def scenario_defs)
  from account_deletion_removes_user_and_devices[OF fk, of account_u1]
  obtain s' where s': "on_auth_user_deleted account_u1 with_device = Inr s'"
      "users s' = filter (\<lambda>u. users_id u \<noteq> Some (auth_id account_u1)) (users with_device)"
      "devices s' = filter (\<lambda>d. user_id d \<noteq> Some (auth_id account_u1)) (devices with_device)"
    by blast
  have "s' = \<lparr> users = [row_u2], devices = [] \<rparr>"
    using s'(2,3) by (simp add: scenario_defs)
  with fk s'(1) show ?thesis by simp
qed

text \<open>
  C3. When an account with key \<open>k\<close> is created and no users tuple has id \<open>k\<close> yet, the
  creation succeeds and appends one tuple: the only one with id \<open>k\<close>, its email the
  account's, its two timestamps the current time. Its display name is the text of the
  member \<open>full_name\<close> of the metadata object when the object has that member and it is
  not null, and NULL when the member is missing or null; its photo URL is the member
  \<open>avatar_url\<close> in the same way, each field on its own. Both are NULL when the metadata
  is NULL or is no object. None of these cases is an error.
\<close>

theorem account_creation_mirrors_user:
  assumes "\<forall>r \<in> set (users s). users_id r \<noteq> Some (auth_id new)"
  shows "\<exists>row. on_auth_user_created new now s = Inr (s\<lparr> users := users s @ [row] \<rparr>)
           \<and> filter (\<lambda>r. users_id r = Some (auth_id new)) (users s @ [row]) = [row]
           \<and> users_id row = Some (auth_id new)
           \<and> email row = auth_email new
           \<and> display_name row = json_get_text (raw_user_meta_data new) ''full_name''
           \<and> photo_url row = json_get_text (raw_user_meta_data new) ''avatar_url''
           \<and> created_at row = Some now \<and> updated_at row = Some now
           \<and> (raw_user_meta_data new = None \<longrightarrow> display_name row = None \<and> photo_url row = None)
           \<and> (raw_user_meta_data new = Some JsonNotObject \<longrightarrow>
                 display_name row = None \<and> photo_url row = None)
           \<and> (\<forall>kvs. raw_user_meta_data new = Some (JsonObject kvs) \<longrightarrow>
                 (\<forall>t. map_of kvs ''full_name'' = Some (JsonValue t) \<longrightarrow> display_name row = Some t)
                 \<and> (map_of kvs ''full_name'' = Some JsonNull \<longrightarrow> display_name row = None)
                 \<and> (map_of kvs ''full_name'' = None \<longrightarrow> display_name row = None)
                 \<and> (\<forall>t. map_of kvs ''avatar_url'' = Some (JsonValue t) \<longrightarrow> photo_url row = Some t)
                 \<and> (map_of kvs ''avatar_url'' = Some JsonNull \<longrightarrow> photo_url row = None)
                 \<and> (map_of kvs ''avatar_url'' = None \<longrightarrow> photo_url row = None))"
proof -
  let ?row = "\<lparr> created_at = Some now, updated_at = Some now,
                users_id = Some (auth_id new), email = auth_email new,
                display_name = json_get_text (raw_user_meta_data new) ''full_name'',
                photo_url = json_get_text (raw_user_meta_data new) ''avatar_url'' \<rparr>"
  have none_before: "filter (\<lambda>r. users_id r = Some (auth_id new)) (users s) = []"
    using assms by (simp add: filter_empty_conv)
  have run: "on_auth_user_created new now s = Inr (s\<lparr> users := users s @ [?row] \<rparr>)"
    using assms by (simp add: on_auth_user_created_def handle_new_user_eq)
  have only: "filter (\<lambda>r. users_id r = Some (auth_id new)) (users s @ [?row]) = [?row]"
    using none_before by simp
  have members: "\<forall>kvs. raw_user_meta_data new = Some (JsonObject kvs) \<longrightarrow>
                 (\<forall>t. map_of kvs ''full_name'' = Some (JsonValue t) \<longrightarrow> display_name ?row = Some t)
                 \<and> (map_of kvs ''full_name'' = Some JsonNull \<longrightarrow> display_name ?row = None)
                 \<and> (map_of kvs ''full_name'' = None \<longrightarrow> display_name ?row = None)
                 \<and> (\<forall>t. map_of kvs ''avatar_url'' = Some (JsonValue t) \<longrightarrow> photo_url ?row = Some t)
                 \<and> (map_of kvs ''avatar_url'' = Some JsonNull \<longrightarrow> photo_url ?row = None)
                 \<and> (map_of kvs ''avatar_url'' = None \<longrightarrow> photo_url ?row = None)"
    by simp
  have absent: "raw_user_meta_data new = None \<longrightarrow> display_name ?row = None \<and> photo_url ?row = None"
    "raw_user_meta_data new = Some JsonNotObject \<longrightarrow>
       display_name ?row = None \<and> photo_url ?row = None"
    by simp_all
  show ?thesis
    by (rule exI[where x = ?row]) (use run only members absent in simp)
qed

theorem account_creation_mirrors_user_witness:
  "on_auth_user_created account_u2 10 only_u1 = Inr two_users
   \<and> on_auth_user_created account_u1 10 no_rows = Inr only_u1"
proof -
  have fresh2: "\<forall>r \<in> set (users only_u1). users_id r \<noteq> Some (auth_id account_u2)"
    by (simp add: scenario_defs)
  have fresh1: "\<forall>r \<in> set (users no_rows). users_id r \<noteq> Some (auth_id account_u1)"
    by (simp add: scenario_defs)
  from account_creation_mirrors_user[OF fresh2, of 10]
  have "on_auth_user_created account_u2 10 only_u1 = Inr two_users"
    by (auto simp: scenario_defs)
  moreover from account_creation_mirrors_user[OF fresh1, of 10]
  have "on_auth_user_created account_u1 10 no_rows = Inr only_u1"
    by (auto simp: scenario_defs)
  ultimately show ?thesis by simp
qed

text \<open>
  C8, as the code has it. A second delivery of the creation of an account whose users
  tuple exists is not a no-op: \<open>handle_new_user\<close> is a plain INSERT, the primary key
  rejects it, and the error is the provider's statement's error. Nothing is stored.
\<close>

theorem account_creation_redelivery_rejected:
  assumes "\<exists>r \<in> set (users s). users_id r = Some (auth_id new)"
  shows "on_auth_user_created new now s = Inl (UniqueViolation ''users_pkey'')"
  using assms by (simp add: on_auth_user_created_def handle_new_user_eq)

theorem account_creation_redelivery_rejected_witness:
  "(\<exists>r \<in> set (users two_users). users_id r = Some (auth_id account_u2))
   \<and> on_auth_user_created account_u2 30 two_users = Inl (UniqueViolation ''users_pkey'')"
proof -
  have there: "\<exists>r \<in> set (users two_users). users_id r = Some (auth_id account_u2)"
    by (simp add: scenario_defs)
  from account_creation_redelivery_rejected[OF there, of 30] there show ?thesis by simp
qed

text \<open>The first delivery for \<open>u1\<close> succeeds; the second, on the state the first left,
  ends in an error.\<close>

theorem account_creation_redelivery_counterexample:
  "on_auth_user_created account_u1 10 no_rows = Inr only_u1
   \<and> on_auth_user_created account_u1 10 only_u1 \<noteq> Inr only_u1
   \<and> on_auth_user_created account_u1 10 only_u1 = Inl (UniqueViolation ''users_pkey'')"
  by (simp add: on_auth_user_created_def handle_new_user_eq scenario_defs)

text \<open>
  C9. Deleting an account whose key no users tuple has succeeds and returns the state
  it was given, users and devices alike.
\<close>

theorem account_deletion_absent_user_noop:
  assumes "\<forall>r \<in> set (users s). users_id r \<noteq> Some (auth_id old)"
  shows "on_auth_user_deleted old s = Inr s"
proof -
  have "filter (\<lambda>r. users_id r = Some (auth_id old)) (users s) = []"
    using assms by (simp add: filter_empty_conv)
  moreover have "filter (\<lambda>r. users_id r \<noteq> Some (auth_id old)) (users s) = users s"
    using assms by (simp add: filter_id_conv)
  ultimately show ?thesis
    by (simp add: on_auth_user_deleted_def handle_deleted_user_eq)
qed

theorem account_deletion_absent_user_noop_witness:
  "on_auth_user_deleted account_u2 only_u1 = Inr only_u1"
proof -
  have absent: "\<forall>r \<in> set (users only_u1). users_id r \<noteq> Some (auth_id account_u2)"
    by (simp add: scenario_defs)
  from account_deletion_absent_user_noop[OF absent] show ?thesis .
qed

section \<open>Registering devices\<close>

lemma insert_devices_cases:
  "insert_devices x v now gen s =
     (if \<not> allows_with_check devices_policies x INSERT (devices_defaults now gen v)
      then Inl RlsViolation
      else if devices_not_null (devices_defaults now gen v) \<noteq> None
      then Inl (NotNullViolation (the (devices_not_null (devices_defaults now gen v))))
      else if devices_pkey (devices s) (devices_defaults now gen v)
      then Inl (UniqueViolation ''devices_pkey'')
      else if devices_user_id_fcm_token_key (devices s) (devices_defaults now gen v)
      then Inl (UniqueViolation ''devices_user_id_fcm_token_key'')
      else if \<not> devices_user_id_fkey (users s) (devices_defaults now gen v)
      then Inl (ForeignKeyViolation ''devices_user_id_fkey'')
      else Inr (s\<lparr> devices := devices s @ [devices_defaults now gen v] \<rparr>))"
  by (auto simp: insert_devices_def Let_def split: option.splits)

lemma insert_devices_Inr:
  "insert_devices x v now gen s = Inr s' \<Longrightarrow>
     s' = s\<lparr> devices := devices s @ [devices_defaults now gen v] \<rparr>"
  by (simp add: insert_devices_cases split: if_splits)

lemma insert_users_Inr:
  "insert_users x v now s = Inr s' \<Longrightarrow>
     s' = s\<lparr> users := users s @ [users_defaults now v] \<rparr>"
  by (auto simp: insert_users_def Let_def split: if_splits option.splits)

text \<open>What evaluating a statement on given tuples needs.\<close>

lemmas run_defs =
  Let_def insert_users_def insert_devices_cases update_users_def update_devices_def
  delete_users_def delete_devices_def select_users_def select_devices_def
  reaches_users reaches_devices rls_using_users rls_using_devices
  rls_with_check_users_INSERT rls_with_check_users_UPDATE
  rls_with_check_devices_INSERT rls_with_check_devices_UPDATE
  users_defaults_def devices_defaults_def users_not_null_def devices_not_null_def
  users_pkey_def devices_pkey_def devices_user_id_fcm_token_key_def
  devices_user_id_fkey_def on_delete_cascade_def on_update_no_action_def
  handle_updated_at_def
  set_updated_at_def set_display_name_def set_fcm_token_def outcome_def stored_def
  where_any_def


text \<open>
  C5. An INSERT into \<open>devices\<close> writes user \<open>u\<close> and token \<open>t\<close>. If a stored device
  has that pair, the INSERT fails, whoever runs it, and the state stays as it was; run
  by \<open>u\<close> with an id no device has, it fails on \<open>devices_user_id_fcm_token_key\<close>. If
  every stored device has another user or another token, the INSERT, run by \<open>u\<close> with
  an id no device has and with \<open>u\<close> in \<open>users\<close>, succeeds and appends the tuple.
\<close>

theorem device_pair_unique:
  assumes pair: "ins_user_id v = Supplied (Some u)" "ins_fcm_token v = Supplied (Some t)"
  shows "((\<exists>d \<in> set (devices s). user_id d = Some u \<and> fcm_token d = Some t) \<longrightarrow>
            (\<exists>e. insert_devices x v now gen s = Inl e)
            \<and> stored s (insert_devices x v now gen s) = s)
       \<and> ((\<exists>d \<in> set (devices s). user_id d = Some u \<and> fcm_token d = Some t)
            \<and> caller_role c = authenticated \<and> auth_uid c = Some u
            \<and> or_default (ins_devices_id v) (Some gen) = Some k
            \<and> (\<forall>d \<in> set (devices s). devices_id d \<noteq> Some k) \<longrightarrow>
            insert_devices (api c) v now gen s
              = Inl (UniqueViolation ''devices_user_id_fcm_token_key''))
       \<and> ((\<forall>d \<in> set (devices s). user_id d \<noteq> Some u \<or> fcm_token d \<noteq> Some t)
            \<and> caller_role c = authenticated \<and> auth_uid c = Some u
            \<and> or_default (ins_devices_id v) (Some gen) = Some k
            \<and> (\<forall>d \<in> set (devices s). devices_id d \<noteq> Some k)
            \<and> (\<exists>r \<in> set (users s). users_id r = Some u) \<longrightarrow>
            insert_devices (api c) v now gen s
              = Inr (s\<lparr> devices := devices s @ [devices_defaults now gen v] \<rparr>))"
proof -
  let ?new = "devices_defaults now gen v"
  have new: "user_id ?new = Some u" "fcm_token ?new = Some t"
    "devices_id ?new = or_default (ins_devices_id v) (Some gen)"
    using pair by (simp_all add: devices_defaults_def)
  have dup: "devices_user_id_fcm_token_key (devices s) ?new
             = (\<exists>d \<in> set (devices s). user_id d = Some u \<and> fcm_token d = Some t)"
    by (simp add: devices_user_id_fcm_token_key_def new)
  have key: "devices_id ?new = Some k \<Longrightarrow>
             devices_pkey (devices s) ?new = (\<exists>d \<in> set (devices s). devices_id d = Some k)"
    by (simp add: devices_pkey_def)
  have fk: "devices_user_id_fkey (users s) ?new = (\<exists>r \<in> set (users s). users_id r = Some u)"
    by (simp add: devices_user_id_fkey_def new)
  have nn: "devices_id ?new = Some k \<Longrightarrow> devices_not_null ?new = None"
    by (simp add: devices_not_null_def new)
  have chk: "rls_with_check devices_policies c INSERT ?new
             = (caller_role c = authenticated \<and> auth_uid c = Some u)"
    by (simp add: rls_with_check_devices_INSERT new)
  have 1: "(\<exists>d \<in> set (devices s). user_id d = Some u \<and> fcm_token d = Some t) \<longrightarrow>
            (\<exists>e. insert_devices x v now gen s = Inl e)
            \<and> stored s (insert_devices x v now gen s) = s"
    by (auto simp: insert_devices_cases dup stored_def)
  have 2: "(\<exists>d \<in> set (devices s). user_id d = Some u \<and> fcm_token d = Some t)
            \<and> caller_role c = authenticated \<and> auth_uid c = Some u
            \<and> or_default (ins_devices_id v) (Some gen) = Some k
            \<and> (\<forall>d \<in> set (devices s). devices_id d \<noteq> Some k) \<longrightarrow>
            insert_devices (api c) v now gen s
              = Inl (UniqueViolation ''devices_user_id_fcm_token_key'')"
    using new(3) by (auto simp: insert_devices_cases dup chk nn key)
  have 3: "(\<forall>d \<in> set (devices s). user_id d \<noteq> Some u \<or> fcm_token d \<noteq> Some t)
            \<and> caller_role c = authenticated \<and> auth_uid c = Some u
            \<and> or_default (ins_devices_id v) (Some gen) = Some k
            \<and> (\<forall>d \<in> set (devices s). devices_id d \<noteq> Some k)
            \<and> (\<exists>r \<in> set (users s). users_id r = Some u) \<longrightarrow>
            insert_devices (api c) v now gen s
              = Inr (s\<lparr> devices := devices s @ [devices_defaults now gen v] \<rparr>)"
    using new(3) by (auto simp: insert_devices_cases dup chk nn key fk)
  from 1 2 3 show ?thesis by blast
qed

text \<open>With \<open>u1\<close>'s device \<open>tok-1\<close> stored: \<open>u1\<close> registering \<open>tok-1\<close> again is
  rejected, \<open>u1\<close> registering \<open>tok-2\<close> and \<open>u2\<close> registering \<open>tok-1\<close> are accepted.\<close>

theorem device_pair_unique_witness:
  "insert_devices (api as_u1) (register 1 ''tok-1'') 20 12 with_device
     = Inl (UniqueViolation ''devices_user_id_fcm_token_key'')
   \<and> stored with_device (insert_devices (api as_u1) (register 1 ''tok-1'') 20 12 with_device)
     = with_device
   \<and> insert_devices (api as_u1) (register 1 ''tok-2'') 20 12 with_device
     = Inr (with_device\<lparr> devices := [device_u1, device_u2\<lparr> user_id := Some 1, fcm_token := Some ''tok-2'' \<rparr>] \<rparr>)
   \<and> insert_devices (api as_u2) (register 2 ''tok-1'') 20 12 with_device = Inr both_devices"
proof -
  have again: "ins_user_id (register 1 ''tok-1'') = Supplied (Some 1)"
      "ins_fcm_token (register 1 ''tok-1'') = Supplied (Some ''tok-1'')"
    and other_token: "ins_user_id (register 1 ''tok-2'') = Supplied (Some 1)"
      "ins_fcm_token (register 1 ''tok-2'') = Supplied (Some ''tok-2'')"
    and other_user: "ins_user_id (register 2 ''tok-1'') = Supplied (Some 2)"
      "ins_fcm_token (register 2 ''tok-1'') = Supplied (Some ''tok-1'')"
    by (simp_all add: register_def)
  note a = device_pair_unique[OF again, where s = with_device and x = "api as_u1"
      and c = as_u1 and now = 20 and gen = 12 and k = 12]
  note b = device_pair_unique[OF other_token, where s = with_device and x = "api as_u1"
      and c = as_u1 and now = 20 and gen = 12 and k = 12]
  note c = device_pair_unique[OF other_user, where s = with_device and x = "api as_u2"
      and c = as_u2 and now = 20 and gen = 12 and k = 12]
  have "insert_devices (api as_u1) (register 1 ''tok-1'') 20 12 with_device
          = Inl (UniqueViolation ''devices_user_id_fcm_token_key'')"
       "stored with_device (insert_devices (api as_u1) (register 1 ''tok-1'') 20 12 with_device)
          = with_device"
    using a by (simp_all add: scenario_defs stored_def)
  moreover have "insert_devices (api as_u1) (register 1 ''tok-2'') 20 12 with_device
     = Inr (with_device\<lparr> devices := [device_u1, device_u2\<lparr> user_id := Some 1, fcm_token := Some ''tok-2'' \<rparr>] \<rparr>)"
    using b by (simp add: scenario_defs devices_defaults_def)
  moreover have "insert_devices (api as_u2) (register 2 ''tok-1'') 20 12 with_device = Inr both_devices"
    using c by (simp add: scenario_defs devices_defaults_def)
  ultimately show ?thesis by simp
qed

text \<open>
  C10. An INSERT that succeeds, into \<open>users\<close> or into \<open>devices\<close>, appends one tuple
  whose \<open>created_at\<close> and \<open>updated_at\<close> are the values the statement wrote, whatever they
  are, and the current time for a column it left out: no trigger runs on INSERT.
\<close>

theorem insert_keeps_written_timestamps:
  "(insert_users x vu now s = Inr s1 \<longrightarrow>
      (\<exists>row. s1 = s\<lparr> users := users s @ [row] \<rparr>
         \<and> created_at row = or_default (ins_created_at vu) (Some now)
         \<and> updated_at row = or_default (ins_updated_at vu) (Some now)
         \<and> (ins_created_at vu = Supplied a \<longrightarrow> created_at row = a)
         \<and> (ins_updated_at vu = Supplied b \<longrightarrow> updated_at row = b)
         \<and> (ins_created_at vu = Omitted \<longrightarrow> created_at row = Some now)
         \<and> (ins_updated_at vu = Omitted \<longrightarrow> updated_at row = Some now)))
 \<and> (insert_devices x vd now gen s = Inr s2 \<longrightarrow>
      (\<exists>row. s2 = s\<lparr> devices := devices s @ [row] \<rparr>
         \<and> created_at row = or_default (ins_created_at vd) (Some now)
         \<and> updated_at row = or_default (ins_updated_at vd) (Some now)
         \<and> (ins_created_at vd = Supplied a \<longrightarrow> created_at row = a)
         \<and> (ins_updated_at vd = Supplied b \<longrightarrow> updated_at row = b)
         \<and> (ins_created_at vd = Omitted \<longrightarrow> created_at row = Some now)
         \<and> (ins_updated_at vd = Omitted \<longrightarrow> updated_at row = Some now)))"
proof (intro conjI impI)
  assume "insert_users x vu now s = Inr s1"
  then have "s1 = s\<lparr> users := users s @ [users_defaults now vu] \<rparr>"
    by (rule insert_users_Inr)
  then show "\<exists>row. s1 = s\<lparr> users := users s @ [row] \<rparr>
         \<and> created_at row = or_default (ins_created_at vu) (Some now)
         \<and> updated_at row = or_default (ins_updated_at vu) (Some now)
         \<and> (ins_created_at vu = Supplied a \<longrightarrow> created_at row = a)
         \<and> (ins_updated_at vu = Supplied b \<longrightarrow> updated_at row = b)
         \<and> (ins_created_at vu = Omitted \<longrightarrow> created_at row = Some now)
         \<and> (ins_updated_at vu = Omitted \<longrightarrow> updated_at row = Some now)"
    by (intro exI[where x = "users_defaults now vu"]) (simp add: users_defaults_def)
next
  assume "insert_devices x vd now gen s = Inr s2"
  then have "s2 = s\<lparr> devices := devices s @ [devices_defaults now gen vd] \<rparr>"
    by (rule insert_devices_Inr)
  then show "\<exists>row. s2 = s\<lparr> devices := devices s @ [row] \<rparr>
         \<and> created_at row = or_default (ins_created_at vd) (Some now)
         \<and> updated_at row = or_default (ins_updated_at vd) (Some now)
         \<and> (ins_created_at vd = Supplied a \<longrightarrow> created_at row = a)
         \<and> (ins_updated_at vd = Supplied b \<longrightarrow> updated_at row = b)
         \<and> (ins_created_at vd = Omitted \<longrightarrow> created_at row = Some now)
         \<and> (ins_updated_at vd = Omitted \<longrightarrow> updated_at row = Some now)"
    by (intro exI[where x = "devices_defaults now gen vd"]) (simp add: devices_defaults_def)
qed

text \<open>\<open>u1\<close> registers \<open>tok-1\<close> at time 20 and writes \<open>updated_at = 100\<close>: the tuple has
  100, and 20 for \<open>created_at\<close>, which it left out. The table owner inserts a users
  tuple at time 20 with \<open>created_at = 5\<close> and \<open>updated_at = NULL\<close>: both are stored.\<close>

theorem insert_keeps_written_timestamps_witness:
  "insert_devices (api as_u1) ((register 1 ''tok-1'')\<lparr> ins_updated_at := Supplied (Some 100) \<rparr>)
      20 11 two_users = Inr with_device_ahead
   \<and> insert_users table_owner
        \<lparr> ins_created_at = Supplied (Some 5), ins_updated_at = Supplied None,
          ins_users_id = Supplied (Some 2), ins_email = Omitted,
          ins_display_name = Omitted, ins_photo_url = Omitted \<rparr> 20 only_u1
      = Inr (only_u1\<lparr> users := [row_u1,
               \<lparr> created_at = Some 5, updated_at = None, users_id = Some 2,
                 email = None, display_name = None, photo_url = None \<rparr>] \<rparr>)"
proof -
  let ?vd = "(register 1 ''tok-1'')\<lparr> ins_updated_at := Supplied (Some 100) \<rparr>"
  let ?vu = "\<lparr> ins_created_at = Supplied (Some 5), ins_updated_at = Supplied None,
          ins_users_id = Supplied (Some 2), ins_email = Omitted,
          ins_display_name = Omitted, ins_photo_url = Omitted \<rparr>"
  have d: "insert_devices (api as_u1) ?vd 20 11 two_users = Inr with_device_ahead"
    by (simp add: insert_devices_cases rls_with_check_devices_INSERT devices_defaults_def
        devices_not_null_def devices_pkey_def devices_user_id_fcm_token_key_def
        devices_user_id_fkey_def scenario_defs)
  have u: "insert_users table_owner ?vu 20 only_u1
      = Inr (only_u1\<lparr> users := [row_u1,
               \<lparr> created_at = Some 5, updated_at = None, users_id = Some 2,
                 email = None, display_name = None, photo_url = None \<rparr>] \<rparr>)"
    by (simp add: insert_users_owner users_defaults_def users_not_null_def users_pkey_def
        scenario_defs)
  from insert_keeps_written_timestamps[where x = "api as_u1" and vd = ?vd and now = 20
      and gen = 11 and s = two_users and ?s2.0 = with_device_ahead and b = "Some 100"]
    insert_keeps_written_timestamps[where x = table_owner and vu = ?vu and now = 20
      and s = only_u1 and a = "Some 5" and b = None]
    d u
  show ?thesis by simp
qed

section \<open>Updating\<close>

lemma handle_updated_at_cols [simp]:
  "users_id (handle_updated_at now r) = users_id r"
  "user_id (handle_updated_at now d) = user_id d"
  "updated_at (handle_updated_at now t) = Some now"
  "created_at (handle_updated_at now t) = created_at t"
  by (simp_all add: handle_updated_at_def)

lemma update_users_loop_Inr:
  "update_users_loop x wh assign now seen rest = Inr (written, tbl) \<Longrightarrow>
     tbl = seen @ map (\<lambda>r. if reaches users_policies x UPDATE r \<and> wh r
                            then handle_updated_at now (assign r) else r) rest
   \<and> written = map (\<lambda>r. handle_updated_at now (assign r))
                   (filter (\<lambda>r. reaches users_policies x UPDATE r \<and> wh r) rest)
   \<and> (\<forall>r \<in> set rest. reaches users_policies x UPDATE r \<and> wh r \<longrightarrow>
         allows_with_check users_policies x UPDATE (handle_updated_at now (assign r)))"
proof (induction rest arbitrary: seen written tbl)
  case Nil
  then show ?case by simp
next
  case (Cons old rest)
  show ?case
  proof (cases "reaches users_policies x UPDATE old \<and> wh old")
    case False
    with Cons.prems have "update_users_loop x wh assign now (seen @ [old]) rest = Inr (written, tbl)"
      by auto
    from Cons.IH[OF this] False show ?thesis by auto
  next
    case True
    let ?new = "handle_updated_at now (assign old)"
    from True Cons.prems have ok: "allows_with_check users_policies x UPDATE ?new"
      by (auto simp: Let_def split: if_splits)
    from True Cons.prems obtain w where
      rec: "update_users_loop x wh assign now (seen @ [?new]) rest = Inr (w, tbl)"
      and w: "written = ?new # w"
      by (auto simp: Let_def split: if_splits option.splits sum.splits)
    from Cons.IH[OF rec] True ok w show ?thesis by simp
  qed
qed

lemma update_users_loop_none:
  "\<forall>r \<in> set rest. \<not> (reaches users_policies x UPDATE r \<and> wh r) \<Longrightarrow>
     update_users_loop x wh assign now seen rest = Inr ([], seen @ rest)"
  by (induction rest arbitrary: seen) auto

lemma update_devices_loop_Inr:
  "update_devices_loop x wh assign now seen rest = Inr (written, tbl) \<Longrightarrow>
     tbl = seen @ map (\<lambda>r. if reaches devices_policies x UPDATE r \<and> wh r
                            then handle_updated_at now (assign r) else r) rest
   \<and> written = map (\<lambda>r. handle_updated_at now (assign r))
                   (filter (\<lambda>r. reaches devices_policies x UPDATE r \<and> wh r) rest)
   \<and> (\<forall>r \<in> set rest. reaches devices_policies x UPDATE r \<and> wh r \<longrightarrow>
         allows_with_check devices_policies x UPDATE (handle_updated_at now (assign r)))"
proof (induction rest arbitrary: seen written tbl)
  case Nil
  then show ?case by simp
next
  case (Cons old rest)
  show ?case
  proof (cases "reaches devices_policies x UPDATE old \<and> wh old")
    case False
    with Cons.prems have "update_devices_loop x wh assign now (seen @ [old]) rest = Inr (written, tbl)"
      by auto
    from Cons.IH[OF this] False show ?thesis by auto
  next
    case True
    let ?new = "handle_updated_at now (assign old)"
    from True Cons.prems have ok: "allows_with_check devices_policies x UPDATE ?new"
      by (auto simp: Let_def split: if_splits)
    from True Cons.prems obtain w where
      rec: "update_devices_loop x wh assign now (seen @ [?new]) rest = Inr (w, tbl)"
      and w: "written = ?new # w"
      by (auto simp: Let_def split: if_splits option.splits sum.splits)
    from Cons.IH[OF rec] True ok w show ?thesis by simp
  qed
qed

lemma update_devices_loop_none:
  "\<forall>r \<in> set rest. \<not> (reaches devices_policies x UPDATE r \<and> wh r) \<Longrightarrow>
     update_devices_loop x wh assign now seen rest = Inr ([], seen @ rest)"
  by (induction rest arbitrary: seen) auto

lemma update_users_Inr:
  assumes "update_users x wh assign now s = Inr (written, s')"
  shows "s' = s\<lparr> users := map (\<lambda>r. if reaches users_policies x UPDATE r \<and> wh r
                            then handle_updated_at now (assign r) else r) (users s) \<rparr>"
    and "written = map (\<lambda>r. handle_updated_at now (assign r))
                   (filter (\<lambda>r. reaches users_policies x UPDATE r \<and> wh r) (users s))"
    and "\<forall>r \<in> set (users s). reaches users_policies x UPDATE r \<and> wh r \<longrightarrow>
         allows_with_check users_policies x UPDATE (handle_updated_at now (assign r))"
proof -
  from assms obtain tbl where
    "update_users_loop x wh assign now [] (users s) = Inr (written, tbl)"
    and "s' = s\<lparr> users := tbl \<rparr>"
    by (auto simp: update_users_def Let_def split: sum.splits if_splits)
  from update_users_loop_Inr[OF this(1)] this(2)
  show "s' = s\<lparr> users := map (\<lambda>r. if reaches users_policies x UPDATE r \<and> wh r
                            then handle_updated_at now (assign r) else r) (users s) \<rparr>"
    and "written = map (\<lambda>r. handle_updated_at now (assign r))
                   (filter (\<lambda>r. reaches users_policies x UPDATE r \<and> wh r) (users s))"
    and "\<forall>r \<in> set (users s). reaches users_policies x UPDATE r \<and> wh r \<longrightarrow>
         allows_with_check users_policies x UPDATE (handle_updated_at now (assign r))"
    by simp_all
qed

lemma update_devices_Inr:
  assumes "update_devices x wh assign now s = Inr (written, s')"
  shows "s' = s\<lparr> devices := map (\<lambda>r. if reaches devices_policies x UPDATE r \<and> wh r
                            then handle_updated_at now (assign r) else r) (devices s) \<rparr>"
    and "written = map (\<lambda>r. handle_updated_at now (assign r))
                   (filter (\<lambda>r. reaches devices_policies x UPDATE r \<and> wh r) (devices s))"
    and "\<forall>r \<in> set (devices s). reaches devices_policies x UPDATE r \<and> wh r \<longrightarrow>
         allows_with_check devices_policies x UPDATE (handle_updated_at now (assign r))"
proof -
  from assms obtain tbl where
    "update_devices_loop x wh assign now [] (devices s) = Inr (written, tbl)"
    and "s' = s\<lparr> devices := tbl \<rparr>"
    by (auto simp: update_devices_def Let_def split: sum.splits if_splits)
  from update_devices_loop_Inr[OF this(1)] this(2)
  show "s' = s\<lparr> devices := map (\<lambda>r. if reaches devices_policies x UPDATE r \<and> wh r
                            then handle_updated_at now (assign r) else r) (devices s) \<rparr>"
    and "written = map (\<lambda>r. handle_updated_at now (assign r))
                   (filter (\<lambda>r. reaches devices_policies x UPDATE r \<and> wh r) (devices s))"
    and "\<forall>r \<in> set (devices s). reaches devices_policies x UPDATE r \<and> wh r \<longrightarrow>
         allows_with_check devices_policies x UPDATE (handle_updated_at now (assign r))"
    by simp_all
qed

lemma update_users_none:
  assumes "\<forall>r \<in> set (users s). \<not> (reaches users_policies x UPDATE r \<and> wh r)"
  shows "update_users x wh assign now s = Inr ([], s)"
proof -
  have "filter (\<lambda>old. reaches users_policies x UPDATE old \<and> wh old
                  \<and> users_id (handle_updated_at now (assign old)) \<noteq> users_id old) (users s) = []"
    using assms by (auto simp: filter_empty_conv)
  then show ?thesis
    using assms by (simp add: update_users_def update_users_loop_none on_update_no_action_def)
qed

lemma update_devices_none:
  assumes "\<forall>r \<in> set (devices s). \<not> (reaches devices_policies x UPDATE r \<and> wh r)"
  shows "update_devices x wh assign now s = Inr ([], s)"
proof -
  have "filter (\<lambda>old. reaches devices_policies x UPDATE old \<and> wh old
                  \<and> user_id (handle_updated_at now (assign old)) \<noteq> user_id old) (devices s) = []"
    using assms by (auto simp: filter_empty_conv)
  then show ?thesis
    using assms by (simp add: update_devices_def update_devices_loop_none)
qed


text \<open>
  C4, as the code has it. After an UPDATE that succeeds, on \<open>users\<close> or on \<open>devices\<close>,
  every tuple it wrote has the current time as \<open>updated_at\<close>, whatever the SET clause put
  there, and the others are as they were. The time is that of the transaction: the new
  value is later than the old one when the old one was earlier than that, not otherwise.
\<close>

theorem update_stamps_current_time:
  "(update_users x wh assign now s = Inr (written, s') \<longrightarrow>
      users s' = map (\<lambda>r. if reaches users_policies x UPDATE r \<and> wh r
                          then (assign r)\<lparr> updated_at := Some now \<rparr> else r) (users s)
      \<and> written = map (\<lambda>r. (assign r)\<lparr> updated_at := Some now \<rparr>)
                      (filter (\<lambda>r. reaches users_policies x UPDATE r \<and> wh r) (users s))
      \<and> (\<forall>new \<in> set written. updated_at new = Some now))
 \<and> (update_devices x whd assignd now s = Inr (writtend, s'') \<longrightarrow>
      devices s'' = map (\<lambda>r. if reaches devices_policies x UPDATE r \<and> whd r
                          then (assignd r)\<lparr> updated_at := Some now \<rparr> else r) (devices s)
      \<and> writtend = map (\<lambda>r. (assignd r)\<lparr> updated_at := Some now \<rparr>)
                      (filter (\<lambda>r. reaches devices_policies x UPDATE r \<and> whd r) (devices s))
      \<and> (\<forall>new \<in> set writtend. updated_at new = Some now))"
proof (intro conjI impI)
  assume run: "update_users x wh assign now s = Inr (written, s')"
  from update_users_Inr(1,2)[OF run]
  show "users s' = map (\<lambda>r. if reaches users_policies x UPDATE r \<and> wh r
                          then (assign r)\<lparr> updated_at := Some now \<rparr> else r) (users s)"
    and w: "written = map (\<lambda>r. (assign r)\<lparr> updated_at := Some now \<rparr>)
                      (filter (\<lambda>r. reaches users_policies x UPDATE r \<and> wh r) (users s))"
    by (simp_all add: handle_updated_at_def)
  from w show "\<forall>new \<in> set written. updated_at new = Some now" by auto
next
  assume run: "update_devices x whd assignd now s = Inr (writtend, s'')"
  from update_devices_Inr(1,2)[OF run]
  show "devices s'' = map (\<lambda>r. if reaches devices_policies x UPDATE r \<and> whd r
                          then (assignd r)\<lparr> updated_at := Some now \<rparr> else r) (devices s)"
    and w: "writtend = map (\<lambda>r. (assignd r)\<lparr> updated_at := Some now \<rparr>)
                      (filter (\<lambda>r. reaches devices_policies x UPDATE r \<and> whd r) (devices s))"
    by (simp_all add: handle_updated_at_def)
  from w show "\<forall>new \<in> set writtend. updated_at new = Some now" by auto
qed


text \<open>\<open>u1\<close> at time 30 sets \<open>updated_at\<close> of their users tuple to 5, and renames the
  token of their device: both tuples are stored with 30.\<close>

theorem update_stamps_current_time_witness:
  "update_users (api as_u1) (where_users_id 1) (set_updated_at (Some 5)) 30 two_users
     = Inr ([row_u1\<lparr> updated_at := Some 30 \<rparr>],
            two_users\<lparr> users := [row_u1\<lparr> updated_at := Some 30 \<rparr>, row_u2] \<rparr>)
   \<and> update_devices (api as_u1) (where_devices_id 11) (set_fcm_token ''tok-2'') 30 both_devices
     = Inr ([device_u1\<lparr> fcm_token := Some ''tok-2'', updated_at := Some 30 \<rparr>],
            both_devices\<lparr> devices :=
              [device_u1\<lparr> fcm_token := Some ''tok-2'', updated_at := Some 30 \<rparr>, device_u2] \<rparr>)"
proof -
  have u: "update_users (api as_u1) (where_users_id 1) (set_updated_at (Some 5)) 30 two_users
     = Inr ([row_u1\<lparr> updated_at := Some 30 \<rparr>],
            two_users\<lparr> users := [row_u1\<lparr> updated_at := Some 30 \<rparr>, row_u2] \<rparr>)"
    by (simp add: run_defs scenario_defs)
  have d: "update_devices (api as_u1) (where_devices_id 11) (set_fcm_token ''tok-2'') 30 both_devices
     = Inr ([device_u1\<lparr> fcm_token := Some ''tok-2'', updated_at := Some 30 \<rparr>],
            both_devices\<lparr> devices :=
              [device_u1\<lparr> fcm_token := Some ''tok-2'', updated_at := Some 30 \<rparr>, device_u2] \<rparr>)"
    by (simp add: run_defs scenario_defs)
  from update_stamps_current_time[where x = "api as_u1" and wh = "where_users_id 1"
      and assign = "set_updated_at (Some 5)" and now = 30 and s = two_users
      and written = "[row_u1\<lparr> updated_at := Some 30 \<rparr>]"
      and s' = "two_users\<lparr> users := [row_u1\<lparr> updated_at := Some 30 \<rparr>, row_u2] \<rparr>"]
    update_stamps_current_time[where x = "api as_u1" and whd = "where_devices_id 11"
      and assignd = "set_fcm_token ''tok-2''" and now = 30 and s = both_devices
      and writtend = "[device_u1\<lparr> fcm_token := Some ''tok-2'', updated_at := Some 30 \<rparr>]"
      and s'' = "both_devices\<lparr> devices :=
              [device_u1\<lparr> fcm_token := Some ''tok-2'', updated_at := Some 30 \<rparr>, device_u2] \<rparr>"]
    u d
  show ?thesis by simp
qed

text \<open>A device stored with \<open>updated_at = 100\<close> (written by the client at registration,
  time 20) and updated at time 30 has 30 afterwards, which is not greater. Updated once
  more in the same transaction it has 30 again.\<close>

theorem update_stamp_not_greater_counterexample:
  "insert_devices (api as_u1) ((register 1 ''tok-1'')\<lparr> ins_updated_at := Supplied (Some 100) \<rparr>)
      20 11 two_users = Inr with_device_ahead
   \<and> updated_at device_ahead = Some 100
   \<and> update_devices (api as_u1) (where_devices_id 11) (set_fcm_token ''tok-2'') 30 with_device_ahead
     = Inr ([device_ahead\<lparr> fcm_token := Some ''tok-2'', updated_at := Some 30 \<rparr>],
            with_device_ahead\<lparr> devices :=
              [device_ahead\<lparr> fcm_token := Some ''tok-2'', updated_at := Some 30 \<rparr>] \<rparr>)
   \<and> \<not> ((100::int) < 30)
   \<and> update_devices (api as_u1) (where_devices_id 11) (set_fcm_token ''tok-3'') 30
        (with_device_ahead\<lparr> devices :=
              [device_ahead\<lparr> fcm_token := Some ''tok-2'', updated_at := Some 30 \<rparr>] \<rparr>)
     = Inr ([device_ahead\<lparr> fcm_token := Some ''tok-3'', updated_at := Some 30 \<rparr>],
            with_device_ahead\<lparr> devices :=
              [device_ahead\<lparr> fcm_token := Some ''tok-3'', updated_at := Some 30 \<rparr>] \<rparr>)
   \<and> \<not> ((30::int) < 30)"
  by (simp add: run_defs scenario_defs)

text \<open>
  C6. An UPDATE by a caller that succeeds leaves the \<open>id\<close> of every users tuple, and
  the \<open>user_id\<close> of every devices tuple, as it was, tuple by tuple: USING holds of the
  old tuple and WITH CHECK of the new one, both against the one caller. The other table
  is not touched.
\<close>

theorem permitted_update_keeps_owner:
  "(update_users (api c) wh assign now s = Inr (written, s') \<longrightarrow>
      map users_id (users s') = map users_id (users s) \<and> devices s' = devices s)
 \<and> (update_devices (api c) whd assignd now s = Inr (writtend, s'') \<longrightarrow>
      map user_id (devices s'') = map user_id (devices s) \<and> users s'' = users s)"
proof (intro conjI impI)
  assume run: "update_users (api c) wh assign now s = Inr (written, s')"
  note facts = update_users_Inr[OF run]
  from facts(1) show "devices s' = devices s" by simp
  have "users_id (if reaches users_policies (api c) UPDATE r \<and> wh r
                  then handle_updated_at now (assign r) else r) = users_id r"
    if "r \<in> set (users s)" for r
    using facts(3) that
    by (auto simp: reaches_users rls_with_check_users_UPDATE dest: sql_eq_same)
  with facts(1) show "map users_id (users s') = map users_id (users s)"
    by (simp add: map_idI o_def cong: map_cong)
next
  assume run: "update_devices (api c) whd assignd now s = Inr (writtend, s'')"
  note facts = update_devices_Inr[OF run]
  from facts(1) show "users s'' = users s" by simp
  have "user_id (if reaches devices_policies (api c) UPDATE r \<and> whd r
                  then handle_updated_at now (assignd r) else r) = user_id r"
    if "r \<in> set (devices s)" for r
    using facts(3) that
    by (auto simp: reaches_devices rls_with_check_devices_UPDATE dest: sql_eq_same)
  with facts(1) show "map user_id (devices s'') = map user_id (devices s)"
    by (simp add: map_idI o_def cong: map_cong)
qed

text \<open>\<open>u1\<close> renames their device's token: the owners are as before. (That an UPDATE
  which would move the device to \<open>u2\<close> fails is the content of the theorem: no
  successful run changes an owner.)\<close>

theorem permitted_update_keeps_owner_witness:
  "update_devices (api as_u1) (where_devices_id 11) (set_fcm_token ''tok-2'') 30 both_devices
     = Inr ([device_u1\<lparr> fcm_token := Some ''tok-2'', updated_at := Some 30 \<rparr>],
            both_devices\<lparr> devices :=
              [device_u1\<lparr> fcm_token := Some ''tok-2'', updated_at := Some 30 \<rparr>, device_u2] \<rparr>)
   \<and> map user_id [device_u1\<lparr> fcm_token := Some ''tok-2'', updated_at := Some 30 \<rparr>, device_u2]
     = map user_id (devices both_devices)
   \<and> update_users (api as_u1) (where_users_id 1) (set_display_name ''Al'') 30 two_users
     = Inr ([row_u1\<lparr> display_name := Some ''Al'', updated_at := Some 30 \<rparr>],
            two_users\<lparr> users := [row_u1\<lparr> display_name := Some ''Al'', updated_at := Some 30 \<rparr>, row_u2] \<rparr>)"
proof -
  have d: "update_devices (api as_u1) (where_devices_id 11) (set_fcm_token ''tok-2'') 30 both_devices
     = Inr ([device_u1\<lparr> fcm_token := Some ''tok-2'', updated_at := Some 30 \<rparr>],
            both_devices\<lparr> devices :=
              [device_u1\<lparr> fcm_token := Some ''tok-2'', updated_at := Some 30 \<rparr>, device_u2] \<rparr>)"
    by (simp add: run_defs scenario_defs)
  have u: "update_users (api as_u1) (where_users_id 1) (set_display_name ''Al'') 30 two_users
     = Inr ([row_u1\<lparr> display_name := Some ''Al'', updated_at := Some 30 \<rparr>],
            two_users\<lparr> users := [row_u1\<lparr> display_name := Some ''Al'', updated_at := Some 30 \<rparr>, row_u2] \<rparr>)"
    by (simp add: run_defs scenario_defs)
  from permitted_update_keeps_owner[where c = as_u1 and whd = "where_devices_id 11"
      and assignd = "set_fcm_token ''tok-2''" and now = 30 and s = both_devices
      and writtend = "[device_u1\<lparr> fcm_token := Some ''tok-2'', updated_at := Some 30 \<rparr>]"
      and s'' = "both_devices\<lparr> devices :=
              [device_u1\<lparr> fcm_token := Some ''tok-2'', updated_at := Some 30 \<rparr>, device_u2] \<rparr>"]
    d u
  show ?thesis by simp
qed

section \<open>Row level security\<close>

lemma sql_eq_trans: "sql_eq a b \<Longrightarrow> sql_eq b b' \<Longrightarrow> sql_eq a b'"
  by (auto simp: sql_eq_def split: option.splits)

lemma filter_map_changed:
  "(\<And>x. x \<in> set xs \<Longrightarrow> g x \<noteq> x \<Longrightarrow> \<not> P x \<and> \<not> P (g x)) \<Longrightarrow>
     filter P (map g xs) = filter P xs"
proof (induction xs)
  case Nil
  then show ?case by simp
next
  case (Cons x xs)
  then have rest: "filter P (map g xs) = filter P xs" by simp
  show ?case
  proof (cases "g x = x")
    case True
    with rest show ?thesis by simp
  next
    case False
    with Cons.prems[of x] have "\<not> P x" "\<not> P (g x)" by simp_all
    with rest show ?thesis by simp
  qed
qed

lemma filter_filter_implied:
  "(\<And>x. x \<in> set xs \<Longrightarrow> P x \<Longrightarrow> Q x) \<Longrightarrow> filter P (filter Q xs) = filter P xs"
  by (induction xs) auto

lemma select_users_api:
  "select_users (api c) wh s =
     filter (\<lambda>r. caller_role c = authenticated \<and> sql_eq (auth_uid c) (users_id r) \<and> wh r)
       (users s)"
  by (simp add: select_users_def rls_using_users conj_assoc)

lemma select_devices_api:
  "select_devices (api c) wh s =
     filter (\<lambda>r. caller_role c = authenticated \<and> sql_eq (auth_uid c) (user_id r) \<and> wh r)
       (devices s)"
  by (simp add: select_devices_def rls_using_devices conj_assoc)

lemma delete_users_api:
  "delete_users (api c) wh s =
     Inr (filter (\<lambda>r. caller_role c = authenticated \<and> sql_eq (auth_uid c) (users_id r) \<and> wh r)
            (users s),
          \<lparr> users = filter (\<lambda>r. \<not> (caller_role c = authenticated
                                     \<and> sql_eq (auth_uid c) (users_id r) \<and> wh r)) (users s),
            devices = on_delete_cascade
              (filter (\<lambda>r. caller_role c = authenticated \<and> sql_eq (auth_uid c) (users_id r) \<and> wh r)
                 (users s))
              (devices s) \<rparr>)"
  by (simp add: delete_users_def reaches_users Let_def conj_assoc)

lemma delete_devices_api:
  "delete_devices (api c) wh s =
     Inr (filter (\<lambda>r. caller_role c = authenticated \<and> sql_eq (auth_uid c) (user_id r) \<and> wh r)
            (devices s),
          s\<lparr> devices := filter (\<lambda>r. \<not> (caller_role c = authenticated
                                     \<and> sql_eq (auth_uid c) (user_id r) \<and> wh r)) (devices s) \<rparr>)"
  by (simp add: delete_devices_def reaches_devices Let_def conj_assoc)

lemma cascade_spares_others:
  assumes "\<And>u. u \<in> set removed \<Longrightarrow> sql_eq (auth_uid c) (users_id u)"
  shows "others_devices c (on_delete_cascade removed ds) = others_devices c ds"
  unfolding on_delete_cascade_def
proof (rule filter_filter_implied)
  fix d :: devices_row
  assume "\<not> sql_eq (auth_uid c) (user_id d)"
  then show "\<not> devices_user_id_fkey removed d"
    using assms by (auto simp: devices_user_id_fkey_def dest: sql_eq_trans)
qed

lemma update_users_spares_others:
  assumes "update_users (api c) wh assign now s = Inr (written, s')"
  shows "others_users c (users s') = others_users c (users s)" and "devices s' = devices s"
proof -
  note facts = update_users_Inr[OF assms]
  let ?g = "\<lambda>r. if reaches users_policies (api c) UPDATE r \<and> wh r
                 then handle_updated_at now (assign r) else r"
  have "others_users c (map ?g (users s)) = others_users c (users s)"
  proof (rule filter_map_changed)
    fix r assume r: "r \<in> set (users s)" and "?g r \<noteq> r"
    then have hit: "reaches users_policies (api c) UPDATE r \<and> wh r"
      by (auto split: if_splits)
    with facts(3) r have "rls_with_check users_policies c UPDATE (handle_updated_at now (assign r))"
      by auto
    with hit show "\<not> \<not> sql_eq (auth_uid c) (users_id r) \<and> \<not> \<not> sql_eq (auth_uid c) (users_id (?g r))"
      by (simp add: reaches_users rls_with_check_users_UPDATE)
  qed
  with facts(1) show "others_users c (users s') = others_users c (users s)" by simp
  from facts(1) show "devices s' = devices s" by simp
qed

lemma update_devices_spares_others:
  assumes "update_devices (api c) wh assign now s = Inr (written, s')"
  shows "others_devices c (devices s') = others_devices c (devices s)" and "users s' = users s"
proof -
  note facts = update_devices_Inr[OF assms]
  let ?g = "\<lambda>r. if reaches devices_policies (api c) UPDATE r \<and> wh r
                 then handle_updated_at now (assign r) else r"
  have "others_devices c (map ?g (devices s)) = others_devices c (devices s)"
  proof (rule filter_map_changed)
    fix r assume r: "r \<in> set (devices s)" and "?g r \<noteq> r"
    then have hit: "reaches devices_policies (api c) UPDATE r \<and> wh r"
      by (auto split: if_splits)
    with facts(3) r have "rls_with_check devices_policies c UPDATE (handle_updated_at now (assign r))"
      by auto
    with hit show "\<not> \<not> sql_eq (auth_uid c) (user_id r) \<and> \<not> \<not> sql_eq (auth_uid c) (user_id (?g r))"
      by (simp add: reaches_devices rls_with_check_devices_UPDATE)
  qed
  with facts(1) show "others_devices c (devices s') = others_devices c (devices s)" by simp
  from facts(1) show "users s' = users s" by simp
qed

lemma delete_users_spares_others:
  assumes "delete_users (api c) wh s = Inr (removed, s')"
  shows "others_users c (users s') = others_users c (users s)"
    and "others_devices c (devices s') = others_devices c (devices s)"
proof -
  let ?hit = "\<lambda>r. caller_role c = authenticated \<and> sql_eq (auth_uid c) (users_id r) \<and> wh r"
  from assms have rem: "removed = filter ?hit (users s)"
    and s': "s' = \<lparr> users = filter (\<lambda>r. \<not> ?hit r) (users s),
                    devices = on_delete_cascade removed (devices s) \<rparr>"
    by (auto simp: delete_users_api)
  have "others_users c (filter (\<lambda>r. \<not> ?hit r) (users s)) = others_users c (users s)"
    by (rule filter_filter_implied) simp
  with s' show "others_users c (users s') = others_users c (users s)"
    by (simp del: filter_filter)
  from rem have "\<And>u. u \<in> set removed \<Longrightarrow> sql_eq (auth_uid c) (users_id u)" by simp
  from cascade_spares_others[OF this] s'
  show "others_devices c (devices s') = others_devices c (devices s)" by simp
qed

lemma delete_devices_spares_others:
  assumes "delete_devices (api c) wh s = Inr (removed, s')"
  shows "others_devices c (devices s') = others_devices c (devices s)" and "users s' = users s"
proof -
  let ?hit = "\<lambda>r. caller_role c = authenticated \<and> sql_eq (auth_uid c) (user_id r) \<and> wh r"
  from assms have s': "s' = s\<lparr> devices := filter (\<lambda>r. \<not> ?hit r) (devices s) \<rparr>"
    by (auto simp: delete_devices_api)
  have "others_devices c (filter (\<lambda>r. \<not> ?hit r) (devices s)) = others_devices c (devices s)"
    by (rule filter_filter_implied) simp
  with s' show "others_devices c (devices s') = others_devices c (devices s)"
    by (simp del: filter_filter)
  from s' show "users s' = users s" by simp
qed

lemma unauthenticated_reaches_nothing:
  assumes "caller_role c = anon \<or> auth_uid c = None"
  shows "cmd \<noteq> INSERT \<Longrightarrow> \<not> reaches users_policies (api c) cmd r"
    and "cmd \<noteq> INSERT \<Longrightarrow> \<not> reaches devices_policies (api c) cmd d"
  using assms by (auto simp: reaches_users reaches_devices)

lemma delete_users_none:
  "\<forall>r \<in> set (users s). \<not> (reaches users_policies x DELETE r \<and> wh r) \<Longrightarrow>
     delete_users x wh s = Inr ([], s)"
proof -
  assume none: "\<forall>r \<in> set (users s). \<not> (reaches users_policies x DELETE r \<and> wh r)"
  then have "filter (\<lambda>r. reaches users_policies x DELETE r \<and> wh r) (users s) = []"
    and "filter (\<lambda>r. \<not> (reaches users_policies x DELETE r \<and> wh r)) (users s) = users s"
    by (simp_all add: filter_empty_conv filter_id_conv)
  then show ?thesis by (simp add: delete_users_def Let_def)
qed

lemma delete_devices_none:
  "\<forall>r \<in> set (devices s). \<not> (reaches devices_policies x DELETE r \<and> wh r) \<Longrightarrow>
     delete_devices x wh s = Inr ([], s)"
proof -
  assume none: "\<forall>r \<in> set (devices s). \<not> (reaches devices_policies x DELETE r \<and> wh r)"
  then have "filter (\<lambda>r. reaches devices_policies x DELETE r \<and> wh r) (devices s) = []"
    and "filter (\<lambda>r. \<not> (reaches devices_policies x DELETE r \<and> wh r)) (devices s) = devices s"
    by (simp_all add: filter_empty_conv filter_id_conv)
  then show ?thesis by (simp add: delete_devices_def Let_def)
qed

lemma insert_users_api: "insert_users (api c) v now s = Inl RlsViolation"
  by (simp add: insert_users_def Let_def rls_with_check_users_INSERT)

text \<open>
  C1. For a caller \<open>c\<close> of the API, whatever its role and identity:
  a SELECT returns only tuples whose owner key equals \<open>auth.uid()\<close>, to the role
  \<open>authenticated\<close>; an UPDATE or DELETE that succeeds leaves the tuples of other owners,
  in both tables, exactly as they were (the cascade of a DELETE on \<open>users\<close> included);
  a caller with the role \<open>anon\<close> or without identity reads nothing, changes nothing and
  cannot insert a device; and an INSERT into \<open>users\<close>, for which no policy is declared,
  is refused to every caller.
\<close>

theorem row_level_security_denies:
  "(\<forall>r \<in> set (select_users (api c) wh s).
       caller_role c = authenticated \<and> sql_eq (auth_uid c) (users_id r))
 \<and> (\<forall>d \<in> set (select_devices (api c) whd s).
       caller_role c = authenticated \<and> sql_eq (auth_uid c) (user_id d))
 \<and> (update_users (api c) wh assign now s = Inr (written, s1) \<longrightarrow>
       others_users c (users s1) = others_users c (users s) \<and> devices s1 = devices s)
 \<and> (update_devices (api c) whd assignd now s = Inr (writtend, s2) \<longrightarrow>
       others_devices c (devices s2) = others_devices c (devices s) \<and> users s2 = users s)
 \<and> (delete_users (api c) wh s = Inr (removed, s3) \<longrightarrow>
       others_users c (users s3) = others_users c (users s)
       \<and> others_devices c (devices s3) = others_devices c (devices s))
 \<and> (delete_devices (api c) whd s = Inr (removedd, s4) \<longrightarrow>
       others_devices c (devices s4) = others_devices c (devices s) \<and> users s4 = users s)
 \<and> (caller_role c = anon \<or> auth_uid c = None \<longrightarrow>
       select_users (api c) wh s = [] \<and> select_devices (api c) whd s = []
       \<and> update_users (api c) wh assign now s = Inr ([], s)
       \<and> update_devices (api c) whd assignd now s = Inr ([], s)
       \<and> delete_users (api c) wh s = Inr ([], s)
       \<and> delete_devices (api c) whd s = Inr ([], s)
       \<and> insert_devices (api c) vd now gen s = Inl RlsViolation)
 \<and> insert_users (api c) vu now s = Inl RlsViolation"
proof -
  have read_u: "\<forall>r \<in> set (select_users (api c) wh s).
       caller_role c = authenticated \<and> sql_eq (auth_uid c) (users_id r)"
    by (simp add: select_users_api)
  have read_d: "\<forall>d \<in> set (select_devices (api c) whd s).
       caller_role c = authenticated \<and> sql_eq (auth_uid c) (user_id d)"
    by (simp add: select_devices_api)
  have upd_u: "update_users (api c) wh assign now s = Inr (written, s1) \<longrightarrow>
       others_users c (users s1) = others_users c (users s) \<and> devices s1 = devices s"
    using update_users_spares_others by blast
  have upd_d: "update_devices (api c) whd assignd now s = Inr (writtend, s2) \<longrightarrow>
       others_devices c (devices s2) = others_devices c (devices s) \<and> users s2 = users s"
    using update_devices_spares_others by blast
  have del_u: "delete_users (api c) wh s = Inr (removed, s3) \<longrightarrow>
       others_users c (users s3) = others_users c (users s)
       \<and> others_devices c (devices s3) = others_devices c (devices s)"
    using delete_users_spares_others by blast
  have del_d: "delete_devices (api c) whd s = Inr (removedd, s4) \<longrightarrow>
       others_devices c (devices s4) = others_devices c (devices s) \<and> users s4 = users s"
    using delete_devices_spares_others by blast
  have nobody: "caller_role c = anon \<or> auth_uid c = None \<longrightarrow>
       select_users (api c) wh s = [] \<and> select_devices (api c) whd s = []
       \<and> update_users (api c) wh assign now s = Inr ([], s)
       \<and> update_devices (api c) whd assignd now s = Inr ([], s)
       \<and> delete_users (api c) wh s = Inr ([], s)
       \<and> delete_devices (api c) whd s = Inr ([], s)
       \<and> insert_devices (api c) vd now gen s = Inl RlsViolation"
  proof
    assume un: "caller_role c = anon \<or> auth_uid c = None"
    have "select_users (api c) wh s = []" "select_devices (api c) whd s = []"
      using un by (auto simp: select_users_api select_devices_api filter_empty_conv)
    moreover have "update_users (api c) wh assign now s = Inr ([], s)"
      by (rule update_users_none) (simp add: unauthenticated_reaches_nothing[OF un])
    moreover have "update_devices (api c) whd assignd now s = Inr ([], s)"
      by (rule update_devices_none) (simp add: unauthenticated_reaches_nothing[OF un])
    moreover have "delete_users (api c) wh s = Inr ([], s)"
      by (rule delete_users_none) (simp add: unauthenticated_reaches_nothing[OF un])
    moreover have "delete_devices (api c) whd s = Inr ([], s)"
      by (rule delete_devices_none) (simp add: unauthenticated_reaches_nothing[OF un])
    moreover have "insert_devices (api c) vd now gen s = Inl RlsViolation"
      using un by (auto simp: insert_devices_cases rls_with_check_devices_INSERT)
    ultimately show "select_users (api c) wh s = [] \<and> select_devices (api c) whd s = []
       \<and> update_users (api c) wh assign now s = Inr ([], s)
       \<and> update_devices (api c) whd assignd now s = Inr ([], s)
       \<and> delete_users (api c) wh s = Inr ([], s)
       \<and> delete_devices (api c) whd s = Inr ([], s)
       \<and> insert_devices (api c) vd now gen s = Inl RlsViolation"
      by simp
  qed
  from read_u read_d upd_u upd_d del_u del_d nobody insert_users_api[of c vu now s]
  show ?thesis by blast
qed

text \<open>\<open>u2\<close> updates, then deletes, without a WHERE clause: only \<open>u2\<close>'s tuples are
  written or removed. A caller without identity gets nothing, and \<open>u1\<close> cannot insert
  into \<open>users\<close>.\<close>

theorem row_level_security_denies_witness:
  "update_devices (api as_u2) where_any (set_fcm_token ''tok-9'') 30 both_devices
     = Inr ([device_u2\<lparr> fcm_token := Some ''tok-9'', updated_at := Some 30 \<rparr>],
            both_devices\<lparr> devices :=
              [device_u1, device_u2\<lparr> fcm_token := Some ''tok-9'', updated_at := Some 30 \<rparr>] \<rparr>)
   \<and> delete_users (api as_u2) where_any both_devices
     = Inr ([row_u2], \<lparr> users = [row_u1], devices = [device_u1] \<rparr>)
   \<and> select_devices (api as_u2) where_any both_devices = [device_u2]
   \<and> select_users (api as_nobody) where_any both_devices = []
   \<and> delete_devices (api as_nobody) where_any both_devices = Inr ([], both_devices)
   \<and> insert_devices (api as_nobody) (register 1 ''tok-2'') 30 13 both_devices = Inl RlsViolation
   \<and> insert_users (api as_u1)
        \<lparr> ins_created_at = Omitted, ins_updated_at = Omitted, ins_users_id = Supplied (Some 1),
          ins_email = Omitted, ins_display_name = Omitted, ins_photo_url = Omitted \<rparr> 30 no_rows
     = Inl RlsViolation"
proof -
  have upd: "update_devices (api as_u2) where_any (set_fcm_token ''tok-9'') 30 both_devices
     = Inr ([device_u2\<lparr> fcm_token := Some ''tok-9'', updated_at := Some 30 \<rparr>],
            both_devices\<lparr> devices :=
              [device_u1, device_u2\<lparr> fcm_token := Some ''tok-9'', updated_at := Some 30 \<rparr>] \<rparr>)"
    by (simp add: run_defs scenario_defs)
  have del: "delete_users (api as_u2) where_any both_devices
     = Inr ([row_u2], \<lparr> users = [row_u1], devices = [device_u1] \<rparr>)"
    by (simp add: run_defs scenario_defs)
  have sel: "select_devices (api as_u2) where_any both_devices = [device_u2]"
    by (simp add: run_defs scenario_defs)
  let ?vu = "\<lparr> ins_created_at = Omitted, ins_updated_at = Omitted,
          ins_users_id = Supplied (Some 1), ins_email = Omitted, ins_display_name = Omitted,
          ins_photo_url = Omitted \<rparr>"
  let ?d2 = "device_u2\<lparr> fcm_token := Some ''tok-9'', updated_at := Some 30 \<rparr>"
  note mine = row_level_security_denies[of as_u2 where_any both_devices where_any
      "set_display_name ''Al''" 30 "[]" both_devices "set_fcm_token ''tok-9''" "[?d2]"
      "both_devices\<lparr> devices := [device_u1, ?d2] \<rparr>" "[row_u2]"
      "\<lparr> users = [row_u1], devices = [device_u1] \<rparr>" "[]" both_devices
      "register 1 ''tok-2''" 13 ?vu]
  note nobody = row_level_security_denies[of as_nobody where_any both_devices where_any
      "set_display_name ''Al''" 30 "[]" both_devices "set_fcm_token ''tok-9''" "[]"
      both_devices "[]" both_devices "[]" both_devices "register 1 ''tok-2''" 13 ?vu]
  note refused = row_level_security_denies[of as_u1 where_any no_rows where_any
      "set_display_name ''Al''" 30 "[]" no_rows "set_fcm_token ''tok-9''" "[]"
      no_rows "[]" no_rows "[]" no_rows "register 1 ''tok-2''" 13 ?vu]
  from mine upd del
  have "others_devices as_u2 (devices (both_devices\<lparr> devices := [device_u1, ?d2] \<rparr>))
                  = others_devices as_u2 (devices both_devices)"
    by blast
  from nobody
  have none: "select_users (api as_nobody) where_any both_devices = []"
    "delete_devices (api as_nobody) where_any both_devices = Inr ([], both_devices)"
    "insert_devices (api as_nobody) (register 1 ''tok-2'') 30 13 both_devices = Inl RlsViolation"
    by (simp_all add: as_nobody_def)
  from refused have "insert_users (api as_u1) ?vu 30 no_rows = Inl RlsViolation"
    by blast
  with none upd del sel show ?thesis by simp
qed

text \<open>
  C7. A caller's SELECT, UPDATE and DELETE whose WHERE clause selects no tuple at all
  (state \<open>s1\<close>) and the same statements where it selects only tuples of other owners
  (state \<open>s2\<close>) give the caller the same thing: no tuple, no error, and a state that is
  not changed. What the caller sees does not tell the two apart.
\<close>

theorem denied_outcome_hides_existence:
  assumes "\<forall>r \<in> set (users s1). \<not> wh r"
      and "\<forall>r \<in> set (users s2). wh r \<longrightarrow> \<not> sql_eq (auth_uid c) (users_id r)"
      and "\<forall>d \<in> set (devices s1). \<not> whd d"
      and "\<forall>d \<in> set (devices s2). whd d \<longrightarrow> \<not> sql_eq (auth_uid c) (user_id d)"
  shows "select_users (api c) wh s1 = select_users (api c) wh s2
       \<and> outcome (update_users (api c) wh assign now s1)
           = outcome (update_users (api c) wh assign now s2)
       \<and> outcome (delete_users (api c) wh s1) = outcome (delete_users (api c) wh s2)
       \<and> select_devices (api c) whd s1 = select_devices (api c) whd s2
       \<and> outcome (update_devices (api c) whd assignd now s1)
           = outcome (update_devices (api c) whd assignd now s2)
       \<and> outcome (delete_devices (api c) whd s1) = outcome (delete_devices (api c) whd s2)
       \<and> select_users (api c) wh s2 = [] \<and> select_devices (api c) whd s2 = []
       \<and> update_users (api c) wh assign now s2 = Inr ([], s2)
       \<and> update_devices (api c) whd assignd now s2 = Inr ([], s2)
       \<and> delete_users (api c) wh s2 = Inr ([], s2)
       \<and> delete_devices (api c) whd s2 = Inr ([], s2)"
proof -
  have u1: "\<forall>r \<in> set (users s1). \<not> (reaches users_policies (api c) cmd r \<and> wh r)" for cmd
    using assms(1) by simp
  have u2: "\<forall>r \<in> set (users s2). \<not> (reaches users_policies (api c) cmd r \<and> wh r)"
    if "cmd \<noteq> INSERT" for cmd
    using assms(2) that by (auto simp: reaches_users)
  have d1: "\<forall>r \<in> set (devices s1). \<not> (reaches devices_policies (api c) cmd r \<and> whd r)" for cmd
    using assms(3) by simp
  have d2: "\<forall>r \<in> set (devices s2). \<not> (reaches devices_policies (api c) cmd r \<and> whd r)"
    if "cmd \<noteq> INSERT" for cmd
    using assms(4) that by (auto simp: reaches_devices)
  have sel: "select_users (api c) wh s1 = []" "select_users (api c) wh s2 = []"
    "select_devices (api c) whd s1 = []" "select_devices (api c) whd s2 = []"
    using assms by (auto simp: select_users_api select_devices_api filter_empty_conv)
  have upd: "update_users (api c) wh assign now s1 = Inr ([], s1)"
    "update_users (api c) wh assign now s2 = Inr ([], s2)"
    "update_devices (api c) whd assignd now s1 = Inr ([], s1)"
    "update_devices (api c) whd assignd now s2 = Inr ([], s2)"
    by (simp_all add: update_users_none update_devices_none u1 u2 d1 d2)
  have del: "delete_users (api c) wh s1 = Inr ([], s1)"
    "delete_users (api c) wh s2 = Inr ([], s2)"
    "delete_devices (api c) whd s1 = Inr ([], s1)"
    "delete_devices (api c) whd s2 = Inr ([], s2)"
    by (simp_all add: delete_users_none delete_devices_none u1 u2 d1 d2)
  show ?thesis by (simp add: sel upd del outcome_def)
qed

text \<open>\<open>u1\<close> asks for the users tuple 2 and the device 12: in \<open>only_u1\<close> neither
  exists, in \<open>both_devices\<close> both do and are \<open>u2\<close>'s. The answers are the same.\<close>

theorem denied_outcome_hides_existence_witness:
  "select_users (api as_u1) (where_users_id 2) only_u1 = []
   \<and> select_users (api as_u1) (where_users_id 2) both_devices = []
   \<and> outcome (update_users (api as_u1) (where_users_id 2) (set_display_name ''Al'') 30 only_u1)
       = Inr []
   \<and> outcome (update_users (api as_u1) (where_users_id 2) (set_display_name ''Al'') 30 both_devices)
       = Inr []
   \<and> outcome (delete_devices (api as_u1) (where_devices_id 12) only_u1) = Inr []
   \<and> outcome (delete_devices (api as_u1) (where_devices_id 12) both_devices) = Inr []
   \<and> delete_users (api as_u1) (where_users_id 2) both_devices = Inr ([], both_devices)
   \<and> update_devices (api as_u1) (where_devices_id 12) (set_fcm_token ''tok-9'') 30 both_devices
       = Inr ([], both_devices)"
proof -
  have h1: "\<forall>r \<in> set (users only_u1). \<not> where_users_id 2 r"
    and h2: "\<forall>r \<in> set (users both_devices).
               where_users_id 2 r \<longrightarrow> \<not> sql_eq (auth_uid as_u1) (users_id r)"
    and h3: "\<forall>d \<in> set (devices only_u1). \<not> where_devices_id 12 d"
    and h4: "\<forall>d \<in> set (devices both_devices).
               where_devices_id 12 d \<longrightarrow> \<not> sql_eq (auth_uid as_u1) (user_id d)"
    by (simp_all add: scenario_defs)
  note same = denied_outcome_hides_existence[OF h1 h2 h3 h4,
      where assign = "set_display_name ''Al''" and assignd = "set_fcm_token ''tok-9''"
      and now = 30]
  from same show ?thesis
    by (simp add: outcome_def where_users_id_fun where_devices_id_fun)
qed

end
